theory Spec2Isabelle
  imports Main "HOL-Library.Sublist" "HOL-Library.Multiset" "HOL-Library.List_Lexorder"
    "HOL-Library.Char_ord"
begin


section \<open>Model construction of shacl2code (src/shacl2code/model.py)\<close>

text \<open>
  A shallow embedding of \<^verbatim>\<open>model.py\<close>: the prefix helpers, the dataclasses, the name
  resolver with its compaction cache, and \<^verbatim>\<open>Model.__init__\<close> (classifier, enum
  extractor, property resolver, class builder, derived-class backlinks, dependency
  ordering). Exceptions are values of type \<open>error\<close>; the ordering loop, which may run
  forever, returns an \<open>option\<close>, \<open>None\<close> meaning that it never returns.
\<close>

subsection \<open>Graph terms, vocabulary and the graph query facade\<close>

text \<open>
  The graph is an rdflib graph, which is external to the repository. A term in object
  position is a \<open>node\<close>: a reference (an IRI or a blank node, given by its text) or a
  literal with its lexical form and datatype. Two terms are equal in rdflib only if they
  are of the same kind, so a literal never equals a reference with the same text.
  \<open>node_text\<close> is \<^verbatim>\<open>str(node)\<close>. Subjects and predicates are references and
  are given by their text, as RDF requires. A graph is the list of its triples in
  iteration order; rdflib stores a set of triples, so the list of a real graph has no
  duplicates, and nothing below depends on that.
\<close>

type_synonym iri = string

datatype node = Ref iri | Literal string "iri option"

fun node_text :: "node \<Rightarrow> string" where
  "node_text (Ref i) = i"
| "node_text (Literal lexical dt) = lexical"

type_synonym graph = "(iri \<times> iri \<times> node) list"

text \<open>
  The IRIs of the vocabulary that \<^verbatim>\<open>model.py\<close> queries (RDF, RDFS, OWL, SH and the
  SPDXS namespace declared at lines 14-17).
\<close>

definition RDF_type :: iri where
  "RDF_type = ''http://www.w3.org/1999/02/22-rdf-syntax-ns#type''"

definition OWL_Class :: iri where
  "OWL_Class = ''http://www.w3.org/2002/07/owl#Class''"

definition OWL_NamedIndividual :: iri where
  "OWL_NamedIndividual = ''http://www.w3.org/2002/07/owl#NamedIndividual''"

definition RDFS_label :: iri where
  "RDFS_label = ''http://www.w3.org/2000/01/rdf-schema#label''"

definition RDFS_comment :: iri where
  "RDFS_comment = ''http://www.w3.org/2000/01/rdf-schema#comment''"

definition RDFS_subClassOf :: iri where
  "RDFS_subClassOf = ''http://www.w3.org/2000/01/rdf-schema#subClassOf''"

definition RDFS_range :: iri where
  "RDFS_range = ''http://www.w3.org/2000/01/rdf-schema#range''"

definition SH_property :: iri where
  "SH_property = ''http://www.w3.org/ns/shacl#property''"

definition SH_path :: iri where
  "SH_path = ''http://www.w3.org/ns/shacl#path''"

definition SH_name :: iri where
  "SH_name = ''http://www.w3.org/ns/shacl#name''"

definition SH_maxCount :: iri where
  "SH_maxCount = ''http://www.w3.org/ns/shacl#maxCount''"

definition SH_minCount :: iri where
  "SH_minCount = ''http://www.w3.org/ns/shacl#minCount''"

definition SH_class :: iri where
  "SH_class = ''http://www.w3.org/ns/shacl#class''"

definition SH_datatype :: iri where
  "SH_datatype = ''http://www.w3.org/ns/shacl#datatype''"

definition SH_pattern :: iri where
  "SH_pattern = ''http://www.w3.org/ns/shacl#pattern''"

definition SPDXS_referenceable :: iri where
  "SPDXS_referenceable = ''https://rdf.spdx.org/ns/schema#referenceable''"

definition SPDXS_idPropertyName :: iri where
  "SPDXS_idPropertyName = ''https://rdf.spdx.org/ns/schema#idPropertyName''"

text \<open>
  \<^verbatim>\<open>graph.subjects(p, o)\<close>, \<^verbatim>\<open>graph.objects(s, p)\<close> and
  \<^verbatim>\<open>graph.value(s, p)\<close>: the value is the first object found, \<^verbatim>\<open>None\<close> when
  there is none. \<open>node_value\<close> is the query whose subject was itself read from the
  graph as an object (a shape, a path): a literal is the subject of no triple. The
  variants with a default are \<^verbatim>\<open>str(graph.value(s, p, default=d))\<close>.
\<close>

definition subjects :: "graph \<Rightarrow> iri \<Rightarrow> node \<Rightarrow> iri list" where
  "subjects g p ob = map fst (filter (\<lambda>(s', p', o'). p' = p \<and> o' = ob) g)"

definition objects :: "graph \<Rightarrow> iri \<Rightarrow> iri \<Rightarrow> node list" where
  "objects g s p = map (\<lambda>(s', p', o'). o') (filter (\<lambda>(s', p', o'). s' = s \<and> p' = p) g)"

definition graph_value :: "graph \<Rightarrow> iri \<Rightarrow> iri \<Rightarrow> node option" where
  "graph_value g s p = (case objects g s p of [] \<Rightarrow> None | v # _ \<Rightarrow> Some v)"

definition node_value :: "graph \<Rightarrow> node \<Rightarrow> iri \<Rightarrow> node option" where
  "node_value g n p = (case n of Ref s \<Rightarrow> graph_value g s p | Literal lexical dt \<Rightarrow> None)"

definition graph_value_default :: "graph \<Rightarrow> iri \<Rightarrow> iri \<Rightarrow> string \<Rightarrow> string" where
  "graph_value_default g s p d = (case graph_value g s p of None \<Rightarrow> d | Some v \<Rightarrow> node_text v)"

definition node_value_default :: "graph \<Rightarrow> node \<Rightarrow> iri \<Rightarrow> string \<Rightarrow> string" where
  "node_value_default g n p d = (case node_value g n p of None \<Rightarrow> d | Some v \<Rightarrow> node_text v)"

text \<open>
  What Python does with a literal, which its lexical form alone does not determine: its
  truth value (rdflib takes a typed literal for false when its Python value is, as the
  integer 0) and \<^verbatim>\<open>int()\<close> of it, \<open>None\<close> where \<^verbatim>\<open>int()\<close> raises.
\<close>

record py_literals =
  py_bool :: "node \<Rightarrow> bool"
  py_int :: "node \<Rightarrow> int option"

text \<open>
  \<^verbatim>\<open>bool(node)\<close>, the test of \<^verbatim>\<open>if range_id := self.model.value(...)\<close> and of
  \<^verbatim>\<open>if not v\<close>. A reference is a Python string, true exactly when it is not empty;
  a literal with an empty lexical form is false, and otherwise its truth value is that of
  its Python value. \<open>truthy\<close> keeps a value that is present and true.
\<close>

definition node_bool :: "py_literals \<Rightarrow> node \<Rightarrow> bool" where
  "node_bool py n \<longleftrightarrow>
     node_text n \<noteq> [] \<and> (case n of Ref i \<Rightarrow> True | Literal lexical dt \<Rightarrow> py_bool py n)"

definition truthy :: "py_literals \<Rightarrow> node option \<Rightarrow> node option" where
  "truthy py v = (case v of None \<Rightarrow> None | Some n \<Rightarrow> if node_bool py n then Some n else None)"

text \<open>
  \<^verbatim>\<open>range_id in class_iris\<close>: membership of a term in a set of class identifiers,
  which only a reference can have.
\<close>

definition known :: "node \<Rightarrow> iri list \<Rightarrow> bool" where
  "known n iris \<longleftrightarrow> n \<in> Ref ` set iris"

subsection \<open>Prefix helpers (lines 24-45)\<close>

text \<open>
  The \<^verbatim>\<open>for idx in range(len(p1))\<close> loop of \<^verbatim>\<open>common_prefix\<close> (lines 33-40),
  started at \<open>idx = 0\<close>.
\<close>

function common_prefix_loop :: "string \<Rightarrow> string \<Rightarrow> nat \<Rightarrow> string" where
  "common_prefix_loop p1 p2 idx =
     (if idx < length p1 then
        (if idx \<ge> length p2 then p2
         else if p1 ! idx \<noteq> p2 ! idx then take idx p2
         else common_prefix_loop p1 p2 (Suc idx))
      else p1)"
  by pat_completeness auto

termination
  by (relation "measure (\<lambda>(p1, p2, idx). length p1 - idx)") auto

text \<open>
  \<^verbatim>\<open>common_prefix(*s)\<close>: the argument tuple is a list; the two recursive calls take
  \<^verbatim>\<open>s[: len(s) // 2]\<close> and \<^verbatim>\<open>s[len(s) // 2 :]\<close>.
\<close>

function common_prefix :: "string list \<Rightarrow> string" where
  "common_prefix s =
     (if s = [] then ''''
      else if length s = 1 then s ! 0
      else common_prefix_loop
             (common_prefix (take (length s div 2) s))
             (common_prefix (drop (length s div 2) s)) 0)"
  by pat_completeness auto

termination
  by (relation "measure length") (auto simp: Suc_lessI)

text \<open>
  \<^verbatim>\<open>remove_common_prefix(val, *cmp)\<close> (lines 43-45).
\<close>

definition remove_common_prefix :: "string \<Rightarrow> string list \<Rightarrow> string" where
  "remove_common_prefix val cmp = drop (length (common_prefix (val # cmp))) val"

subsection \<open>Exceptions and dataclasses (lines 20-85)\<close>

text \<open>
  The three \<^verbatim>\<open>ModelException\<close>s raised by \<^verbatim>\<open>Model.__init__\<close>, with the values
  their messages carry, and the Python exceptions that the constructor can run into:
  \<open>TypeError\<close> when a property shape has no \<^verbatim>\<open>sh:path\<close> (the prefix helper is then
  called on \<^verbatim>\<open>None\<close>), \<open>ValueError\<close> when \<^verbatim>\<open>int()\<close> rejects a count, and
  \<open>KeyError\<close> for a lookup in \<^verbatim>\<open>classes_by_iri\<close>.
\<close>

datatype error =
    UnknownReferenceable string string
  | UnknownClassRestriction string string
  | MissingRange string
  | TypeError
  | ValueError
  | KeyError

text \<open>
  The dataclasses. Field names that several dataclasses share (\<^verbatim>\<open>_id\<close>,
  \<^verbatim>\<open>comment\<close>, \<^verbatim>\<open>varname\<close>, \<^verbatim>\<open>clsname\<close>) carry a prefix, and
  \<^verbatim>\<open>datatype\<close> is \<open>datatype_id\<close>. An unset string field is the empty string, as
  in the source.
\<close>

record EnumValue =
  ev_id :: string
  ev_varname :: string
  ev_comment :: string

record Enum =
  e_id :: string
  e_clsname :: string
  e_values :: "EnumValue list"
  e_comment :: string

record Property =
  path :: string
  varname :: string
  p_comment :: string
  max_count :: "int option"
  min_count :: "int option"
  enum_id :: string
  class_id :: string
  datatype_id :: string
  pattern :: string

record Class =
  c_id :: string
  clsname :: string
  parent_ids :: "string list"
  derived_ids :: "string list"
  properties :: "Property list"
  c_comment :: string
  id_property :: "string option"
  refable :: string

text \<open>
  \<^verbatim>\<open>self.compact_ids\<close>, a dictionary in insertion order, and the part of the
  \<^verbatim>\<open>Model\<close> object that the constructor builds.
\<close>

type_synonym cache = "(string \<times> string) list"

record Model =
  compact_ids :: cache
  enums :: "Enum list"
  classes :: "Class list"

subsection \<open>Name resolver (lines 246-263)\<close>

text \<open>
  \<^verbatim>\<open>get_compact_id(_id, fallback=None)\<close>, with \<open>ctx\<close> for
  \<^verbatim>\<open>self.context.compact\<close>. The function returns its result and the updated cache.
  After the first statement the identifier is always in the cache, so the \<open>None\<close> case
  of the second lookup is never taken.
\<close>

definition get_compact_id ::
  "(string \<Rightarrow> string) \<Rightarrow> cache \<Rightarrow> string \<Rightarrow> string option \<Rightarrow> string \<times> cache" where
  "get_compact_id ctx cids i fallback =
     (let cids' = (if map_of cids i = None then cids @ [(i, ctx i)] else cids)
      in case map_of cids' i of
           None \<Rightarrow> (i, cids')
         | Some c \<Rightarrow>
             (case fallback of
                Some f \<Rightarrow> if c = i then (f, cids') else (c, cids')
              | None \<Rightarrow> (c, cids')))"

text \<open>
  \<^verbatim>\<open>get_class_name(c)\<close>: the compacted name with every \<^verbatim>\<open>:\<close> replaced by
  \<^verbatim>\<open>_\<close>.
\<close>

definition get_class_name :: "(string \<Rightarrow> string) \<Rightarrow> cache \<Rightarrow> string \<Rightarrow> string \<times> cache" where
  "get_class_name ctx cids c =
     (case get_compact_id ctx cids c None of
        (n, cids') \<Rightarrow> (map (\<lambda>ch. if ch = CHR '':'' then CHR ''_'' else ch) n, cids'))"

subsection \<open>Classifier and enum extractor (lines 96-132)\<close>

text \<open>
  \<^verbatim>\<open>class_iris\<close> and \<^verbatim>\<open>enum_iris\<close> are Python sets. They are modelled by
  duplicate-free lists, \<^verbatim>\<open>add\<close> by \<open>set_add\<close>; the order in which Python
  iterates over a set is unspecified, and the model iterates in insertion order.
\<close>

definition set_add :: "iri list \<Rightarrow> iri \<Rightarrow> iri list" where
  "set_add xs x = (if x \<in> set xs then xs else xs @ [x])"

text \<open>
  The inner loop of lines 103-118: the instances of the class that are named individuals,
  each as an \<open>EnumValue\<close>.
\<close>

definition enum_values_of :: "graph \<Rightarrow> iri \<Rightarrow> EnumValue list" where
  "enum_values_of g cls_iri =
     map (\<lambda>value_iri.
            \<lparr>ev_id = value_iri,
             ev_varname = graph_value_default g value_iri RDFS_label
                            (remove_common_prefix value_iri [cls_iri]),
             ev_comment = graph_value_default g value_iri RDFS_comment ''''\<rparr>)
         (filter (\<lambda>value_iri. (value_iri, RDF_type, Ref OWL_NamedIndividual) \<in> set g)
                 (subjects g RDF_type (Ref cls_iri)))"

text \<open>
  One iteration of the loop of lines 100-132, on the state
  \<open>(compact_ids, enums, enum_iris, class_iris)\<close>.
\<close>

definition classify_step ::
  "graph \<Rightarrow> (string \<Rightarrow> string) \<Rightarrow> cache \<times> Enum list \<times> iri list \<times> iri list \<Rightarrow> iri
     \<Rightarrow> cache \<times> Enum list \<times> iri list \<times> iri list" where
  "classify_step g ctx st cls_iri =
     (case st of (cids, es, enum_iris, class_iris) \<Rightarrow>
        let enum_values = enum_values_of g cls_iri in
        if enum_values \<noteq> [] then
          (case get_class_name ctx cids cls_iri of
             (n, cids') \<Rightarrow>
               (cids',
                es @ [\<lparr>e_id = cls_iri, e_clsname = n,
                        e_values = sort_key ev_id enum_values,
                        e_comment = graph_value_default g cls_iri RDFS_comment ''''\<rparr>],
                set_add enum_iris cls_iri, class_iris))
        else (cids, es, enum_iris, set_add class_iris cls_iri))"

subsection \<open>Property resolver (lines 134-214)\<close>

text \<open>
  \<^verbatim>\<open>int_val\<close> (lines 134-137).
\<close>

definition int_val :: "py_literals \<Rightarrow> node option \<Rightarrow> error + int option" where
  "int_val py v =
     (case truthy py v of
        None \<Rightarrow> Inr None
      | Some n \<Rightarrow> (case py_int py n of None \<Rightarrow> Inl ValueError | Some k \<Rightarrow> Inr (Some k)))"

text \<open>
  Lines 185-212: the range of the property \<open>p\<close> built for the shape \<open>obj_prop\<close> with
  path \<open>prop\<close>.
\<close>

definition resolve_range ::
  "py_literals \<Rightarrow> graph \<Rightarrow> iri list \<Rightarrow> iri list \<Rightarrow> node \<Rightarrow> node \<Rightarrow> Property \<Rightarrow>
     error + Property" where
  "resolve_range py g enum_iris class_iris obj_prop prop p =
     (case truthy py (node_value g obj_prop SH_class) of
        Some range_id \<Rightarrow>
          if known range_id enum_iris then Inr (p\<lparr>enum_id := node_text range_id\<rparr>)
          else if known range_id class_iris then Inr (p\<lparr>class_id := node_text range_id\<rparr>)
          else Inl (UnknownClassRestriction (node_text prop) (node_text range_id))
      | None \<Rightarrow>
         (case truthy py (node_value g obj_prop SH_datatype) of
            Some range_id \<Rightarrow>
              (case truthy py (node_value g obj_prop SH_pattern) of
                 Some pat \<Rightarrow>
                   Inr (p\<lparr>datatype_id := node_text range_id, pattern := node_text pat\<rparr>)
               | None \<Rightarrow> Inr (p\<lparr>datatype_id := node_text range_id\<rparr>))
          | None \<Rightarrow>
             (case truthy py (node_value g prop RDFS_range) of
                Some range_id \<Rightarrow>
                  if known range_id enum_iris then Inr (p\<lparr>enum_id := node_text range_id\<rparr>)
                  else if known range_id class_iris
                  then Inr (p\<lparr>class_id := node_text range_id\<rparr>)
                  else Inr (p\<lparr>datatype_id := node_text range_id\<rparr>)
              | None \<Rightarrow> Inl (MissingRange (node_text prop)))))"

text \<open>
  One iteration of the loop of lines 167-214. The arguments of \<^verbatim>\<open>Property(...)\<close> are
  evaluated in the order written: the fallback name first (which fails when the shape has
  no path), then the counts.
\<close>

definition build_property ::
  "py_literals \<Rightarrow> graph \<Rightarrow> (string \<Rightarrow> string) \<Rightarrow> iri list \<Rightarrow> iri list \<Rightarrow>
     iri \<Rightarrow> cache \<Rightarrow> node \<Rightarrow> error + (Property \<times> cache)" where
  "build_property py g ctx enum_iris class_iris cls_iri cids obj_prop =
     (case node_value g obj_prop SH_path of
        None \<Rightarrow> Inl TypeError
      | Some prop \<Rightarrow>
         (case get_compact_id ctx cids (node_text prop)
                 (Some (remove_common_prefix (node_text prop) [cls_iri])) of
            (dflt, cids') \<Rightarrow>
              (case int_val py (node_value g obj_prop SH_maxCount) of
                 Inl e \<Rightarrow> Inl e
               | Inr mx \<Rightarrow>
                  (case int_val py (node_value g obj_prop SH_minCount) of
                     Inl e \<Rightarrow> Inl e
                   | Inr mn \<Rightarrow>
                      (case resolve_range py g enum_iris class_iris obj_prop prop
                              \<lparr>path = node_text prop,
                               varname = node_value_default g obj_prop SH_name dflt,
                               p_comment = node_value_default g prop RDFS_comment '''',
                               max_count = mx, min_count = mn,
                               enum_id = '''', class_id = '''', datatype_id = '''',
                               pattern = ''''\<rparr> of
                         Inl e \<Rightarrow> Inl e
                       | Inr p \<Rightarrow> Inr (p, cids'))))))"

text \<open>
  The loop \<^verbatim>\<open>for obj_prop in self.model.objects(cls_iri, SH.property)\<close>, stopping at
  the first exception.
\<close>

fun build_properties ::
  "py_literals \<Rightarrow> graph \<Rightarrow> (string \<Rightarrow> string) \<Rightarrow> iri list \<Rightarrow> iri list \<Rightarrow>
     iri \<Rightarrow> cache \<Rightarrow> node list \<Rightarrow> error + (Property list \<times> cache)" where
  "build_properties py g ctx enum_iris class_iris cls_iri cids [] = Inr ([], cids)"
| "build_properties py g ctx enum_iris class_iris cls_iri cids (obj_prop # rest) =
     (case build_property py g ctx enum_iris class_iris cls_iri cids obj_prop of
        Inl e \<Rightarrow> Inl e
      | Inr (p, cids') \<Rightarrow>
         (case build_properties py g ctx enum_iris class_iris cls_iri cids' rest of
            Inl e \<Rightarrow> Inl e
          | Inr (ps, cids'') \<Rightarrow> Inr (p # ps, cids'')))"

subsection \<open>Class builder (lines 144-217)\<close>

definition refable_values :: "string list" where
  "refable_values = [''no'', ''local'', ''optional'', ''yes'', ''always'']"

text \<open>
  One iteration of the loop of lines 144-217: the \<open>Class\<close> record, the check of
  \<^verbatim>\<open>refable\<close>, then the properties.
\<close>

definition build_class ::
  "py_literals \<Rightarrow> graph \<Rightarrow> (string \<Rightarrow> string) \<Rightarrow> iri list \<Rightarrow> iri list \<Rightarrow>
     cache \<Rightarrow> iri \<Rightarrow> error + (Class \<times> cache)" where
  "build_class py g ctx enum_iris class_iris cids cls_iri =
     (case get_class_name ctx cids cls_iri of
        (n, cids') \<Rightarrow>
          let c = \<lparr>c_id = cls_iri,
                   clsname = n,
                   parent_ids = map node_text
                                  (filter (\<lambda>parent_iri. known parent_iri class_iris)
                                          (objects g cls_iri RDFS_subClassOf)),
                   derived_ids = [],
                   properties = [],
                   c_comment = graph_value_default g cls_iri RDFS_comment '''',
                   id_property = map_option node_text
                                   (graph_value g cls_iri SPDXS_idPropertyName),
                   refable = graph_value_default g cls_iri SPDXS_referenceable ''optional''\<rparr>
          in if refable c \<notin> set refable_values
             then Inl (UnknownReferenceable (c_id c) (refable c))
             else (case build_properties py g ctx enum_iris class_iris cls_iri cids'
                          (objects g cls_iri SH_property) of
                     Inl e \<Rightarrow> Inl e
                   | Inr (ps, cids'') \<Rightarrow> Inr (c\<lparr>properties := ps\<rparr>, cids'')))"

text \<open>
  The loop \<^verbatim>\<open>for cls_iri in class_iris\<close>, stopping at the first exception.
\<close>

fun build_classes ::
  "py_literals \<Rightarrow> graph \<Rightarrow> (string \<Rightarrow> string) \<Rightarrow> iri list \<Rightarrow> iri list \<Rightarrow>
     cache \<Rightarrow> iri list \<Rightarrow> error + (Class list \<times> cache)" where
  "build_classes py g ctx enum_iris class_iris cids [] = Inr ([], cids)"
| "build_classes py g ctx enum_iris class_iris cids (cls_iri # rest) =
     (case build_class py g ctx enum_iris class_iris cids cls_iri of
        Inl e \<Rightarrow> Inl e
      | Inr (c, cids') \<Rightarrow>
         (case build_classes py g ctx enum_iris class_iris cids' rest of
            Inl e \<Rightarrow> Inl e
          | Inr (cs, cids'') \<Rightarrow> Inr (c # cs, cids'')))"

subsection \<open>Derived-class backlinks (lines 219-224)\<close>

text \<open>
  \<^verbatim>\<open>classes_by_iri[p].derived_ids.append(c._id)\<close>. The dictionary entry and the
  element of \<^verbatim>\<open>self.classes\<close> are the same object, so the append is an update of the
  record with id \<open>p\<close> in the class list (the ids of the list are distinct: they come
  from the set \<^verbatim>\<open>class_iris\<close>).
\<close>

definition add_derived :: "string \<Rightarrow> string \<Rightarrow> Class list \<Rightarrow> Class list" where
  "add_derived p i cs =
     map (\<lambda>d. if c_id d = p then d\<lparr>derived_ids := derived_ids d @ [i]\<rparr> else d) cs"

text \<open>
  The two nested loops of lines 219-221 over the pairs \<open>(c._id, p)\<close>; a parent that is
  not a key of \<^verbatim>\<open>classes_by_iri\<close> raises \<open>KeyError\<close>.
\<close>

fun link_derived_loop :: "(string \<times> string) list \<Rightarrow> Class list \<Rightarrow> error + Class list" where
  "link_derived_loop [] cs = Inr cs"
| "link_derived_loop ((i, p) # rest) cs =
     (if p \<in> set (map c_id cs) then link_derived_loop rest (add_derived p i cs)
      else Inl KeyError)"

definition parent_edges :: "Class list \<Rightarrow> (string \<times> string) list" where
  "parent_edges cs = concat (map (\<lambda>c. map (\<lambda>p. (c_id c, p)) (parent_ids c)) cs)"

definition link_derived :: "Class list \<Rightarrow> error + Class list" where
  "link_derived cs = link_derived_loop (parent_edges cs) cs"

text \<open>
  \<^verbatim>\<open>c.derived_ids.sort()\<close> (line 224).
\<close>

definition sort_derived :: "Class \<Rightarrow> Class" where
  "sort_derived c = c\<lparr>derived_ids := sort (derived_ids c)\<rparr>"

subsection \<open>Dependency orderer (lines 229-244)\<close>

text \<open>
  The \<^verbatim>\<open>while tmp_classes\<close> loop on the state
  \<open>(tmp_classes, done_ids, self.classes)\<close>. The loop has no bound, so the function is
  partial: \<open>None\<close> is the loop that never ends.
\<close>

partial_function (option) order_loop ::
  "Class list \<Rightarrow> string set \<Rightarrow> Class list \<Rightarrow> Class list option" where
  "order_loop tmp_classes done_ids out =
     (case tmp_classes of
        [] \<Rightarrow> Some out
      | c # rest \<Rightarrow>
          if \<not> (\<forall>p \<in> set (parent_ids c). p \<in> done_ids)
          then order_loop (rest @ [c]) done_ids out
          else order_loop rest (insert (c_id c) done_ids) (out @ [c]))"

declare order_loop.simps [code]

subsection \<open>Model construction (lines 89-244)\<close>

text \<open>
  \<^verbatim>\<open>Model.__init__\<close> up to line 227: classification, class records, backlinks and
  the three sorts. The result is the cache, the sorted enums and the sorted class list
  that enters the ordering loop.
\<close>

definition Model_prepare ::
  "py_literals \<Rightarrow> graph \<Rightarrow> (string \<Rightarrow> string) \<Rightarrow>
     error + (cache \<times> Enum list \<times> Class list)" where
  "Model_prepare py g ctx =
     (case foldl (classify_step g ctx) ([], [], [], []) (subjects g RDF_type (Ref OWL_Class)) of
        (cids0, enums0, enum_iris, class_iris) \<Rightarrow>
          (case build_classes py g ctx enum_iris class_iris cids0 class_iris of
             Inl e \<Rightarrow> Inl e
           | Inr (classes0, cids1) \<Rightarrow>
              (case link_derived classes0 of
                 Inl e \<Rightarrow> Inl e
               | Inr classes1 \<Rightarrow>
                   Inr (cids1, sort_key e_id enums0,
                        sort_key c_id (map sort_derived classes1)))))"

text \<open>
  \<^verbatim>\<open>Model.__init__\<close>: \<open>Some (Inl e)\<close> when an exception is raised,
  \<open>Some (Inr m)\<close> when the model \<open>m\<close> is built, \<open>None\<close> when the ordering loop
  never ends.
\<close>

definition Model_init ::
  "py_literals \<Rightarrow> graph \<Rightarrow> (string \<Rightarrow> string) \<Rightarrow> (error + Model) option" where
  "Model_init py g ctx =
     (case Model_prepare py g ctx of
        Inl e \<Rightarrow> Some (Inl e)
      | Inr (cids, es, tmp_classes) \<Rightarrow>
         (case order_loop tmp_classes {} [] of
            None \<Rightarrow> None
          | Some out \<Rightarrow> Some (Inr \<lparr>compact_ids = cids, enums = es, classes = out\<rparr>)))"

text \<open>
  The reading of literals used in the examples: the integer literal 0 is false.
\<close>

definition XSD_integer :: iri where
  "XSD_integer = ''http://www.w3.org/2001/XMLSchema#integer''"

definition py0 :: py_literals where
  "py0 = \<lparr>py_bool = (\<lambda>n. n \<noteq> Literal ''0'' (Some XSD_integer)),
          py_int = (\<lambda>n. if node_text n = ''1'' then Some 1
                        else if node_text n = ''0'' then Some 0 else None)\<rparr>"

subsection \<open>Notions used in the statements\<close>

text \<open>
  The linear left-to-right reduction of the longest common prefix of two strings
  (\<open>longest_common_prefix\<close> of the library), as the specification words it, and what
  it means for a string to be the longest prefix that all strings of a list share.
\<close>

fun linear_common_prefix :: "string list \<Rightarrow> string" where
  "linear_common_prefix [] = ''''"
| "linear_common_prefix (x # xs) = foldl longest_common_prefix x xs"

definition shared_prefix :: "string \<Rightarrow> string list \<Rightarrow> bool" where
  "shared_prefix q xs = list_all (prefix q) xs"

definition longest_shared_prefix :: "string \<Rightarrow> string list \<Rightarrow> bool" where
  "longest_shared_prefix r xs \<longleftrightarrow>
     shared_prefix r xs \<and> (\<forall>q. shared_prefix q xs \<longrightarrow> prefix q r)"

declare common_prefix_loop.simps [simp del]

declare common_prefix.simps [simp del]

text \<open>
  The parent relation of a class list (pairs of a class id and one of its parent ids),
  the topological order of a class list, and the condition that every parent id is the
  id of a class of the list.
\<close>

definition parent_rel :: "Class list \<Rightarrow> (string \<times> string) set" where
  "parent_rel cs = set (parent_edges cs)"

definition topo_ordered :: "Class list \<Rightarrow> bool" where
  "topo_ordered cs \<longleftrightarrow>
     (\<forall>i < length cs. \<forall>p \<in> set (parent_ids (cs ! i)). \<exists>j < i. c_id (cs ! j) = p)"

definition parents_closed :: "Class list \<Rightarrow> bool" where
  "parents_closed cs \<longleftrightarrow> (\<forall>c \<in> set cs. \<forall>p \<in> set (parent_ids c). p \<in> set (map c_id cs))"

text \<open>
  A class is ready when all its parents are done; \<open>parents_known\<close> is the invariant
  of the ordering loop that every parent is done or still queued.
\<close>

definition ready :: "string set \<Rightarrow> Class \<Rightarrow> bool" where
  "ready d c \<longleftrightarrow> (\<forall>p \<in> set (parent_ids c). p \<in> d)"

definition parents_known :: "Class list \<Rightarrow> string set \<Rightarrow> bool" where
  "parents_known tmp d \<longleftrightarrow>
     (\<forall>c \<in> set tmp. \<forall>p \<in> set (parent_ids c). p \<in> d \<or> p \<in> c_id ` set tmp)"

text \<open>
  The structural and the enumeration classes of a graph: the declared classes without and
  with an instance that is a named individual.
\<close>

definition structural_classes :: "graph \<Rightarrow> iri set" where
  "structural_classes g = {c \<in> set (subjects g RDF_type (Ref OWL_Class)). enum_values_of g c = []}"

definition enumeration_classes :: "graph \<Rightarrow> iri set" where
  "enumeration_classes g = {c \<in> set (subjects g RDF_type (Ref OWL_Class)). enum_values_of g c \<noteq> []}"

text \<open>
  Exactly one of the three range fields of a property is non-empty, and the pattern only
  with the datatype.
\<close>

definition range_populated :: "Property \<Rightarrow> bool" where
  "range_populated p \<longleftrightarrow>
     ((enum_id p \<noteq> [] \<and> class_id p = [] \<and> datatype_id p = []) \<or>
      (enum_id p = [] \<and> class_id p \<noteq> [] \<and> datatype_id p = []) \<or>
      (enum_id p = [] \<and> class_id p = [] \<and> datatype_id p \<noteq> [])) \<and>
     (pattern p \<noteq> [] \<longrightarrow> datatype_id p \<noteq> [])"

text \<open>
  The value of the class-level referenceable predicate, \<^verbatim>\<open>optional\<close> when absent.
\<close>

definition declared_refable :: "graph \<Rightarrow> iri \<Rightarrow> string" where
  "declared_refable g cls_iri = graph_value_default g cls_iri SPDXS_referenceable ''optional''"

text \<open>
  What the class builder establishes for each record, and the record after the backlinks
  are computed and sorted.
\<close>

definition class_built :: "graph \<Rightarrow> iri list \<Rightarrow> Class \<Rightarrow> bool" where
  "class_built g cl c \<longleftrightarrow>
     parent_ids c = map node_text (filter (\<lambda>p. known p cl) (objects g (c_id c) RDFS_subClassOf)) \<and>
     derived_ids c = [] \<and>
     refable c = declared_refable g (c_id c) \<and>
     refable c \<in> set refable_values \<and>
     (\<forall>p \<in> set (properties c). range_populated p)"

definition linked :: "Class list \<Rightarrow> Class \<Rightarrow> Class" where
  "linked cs d =
     d\<lparr>derived_ids := sort (derived_ids d @ map fst (filter (\<lambda>e. snd e = c_id d) (parent_edges cs)))\<rparr>"

definition class_ok :: "graph \<Rightarrow> Class \<Rightarrow> bool" where
  "class_ok g c \<longleftrightarrow>
     set (parent_ids c) \<subseteq> structural_classes g \<and>
     sorted (derived_ids c) \<and>
     refable c = declared_refable g (c_id c) \<and>
     refable c \<in> set refable_values \<and>
     (\<forall>p \<in> set (properties c). range_populated p)"

definition backlinked :: "Class list \<Rightarrow> bool" where
  "backlinked cs \<longleftrightarrow>
     (\<forall>C \<in> set cs. \<forall>D \<in> set cs.
        (c_id D \<in> set (parent_ids C)) = (c_id C \<in> set (derived_ids D)))"




text \<open>
  The superclass edges of the graph between structural classes.
\<close>

definition structural_parent_rel :: "graph \<Rightarrow> (iri \<times> iri) set" where
  "structural_parent_rel g =
     {(c, p). c \<in> structural_classes g \<and> p \<in> structural_classes g \<and>
              (c, RDFS_subClassOf, Ref p) \<in> set g}"

text \<open>
  The compaction that the cache holds for an identifier after a lookup: the entry that is
  already there, or the context's compaction.
\<close>

definition cached_compaction :: "(string \<Rightarrow> string) \<Rightarrow> cache \<Rightarrow> string \<Rightarrow> string" where
  "cached_compaction ctx cids i = (case map_of cids i of Some c \<Rightarrow> c | None \<Rightarrow> ctx i)"





subsection \<open>Example graphs\<close>

text \<open>
  A graph with two structural classes, one enumeration and three property shapes; a class
  that is its own superclass; a shape without a range; a class with an unknown
  referenceable value; a class restriction given as a literal; a shape with an empty class
  restriction and one with a pattern that Python takes for false.
\<close>

definition sample_graph :: graph where
  "sample_graph =
     [(''ex:Thing'', RDF_type, Ref OWL_Class),
      (''ex:Animal'', RDF_type, Ref OWL_Class),
      (''ex:Color'', RDF_type, Ref OWL_Class),
      (''ex:red'', RDF_type, Ref ''ex:Color''),
      (''ex:red'', RDF_type, Ref OWL_NamedIndividual),
      (''ex:Animal'', RDFS_subClassOf, Ref ''ex:Thing''),
      (''ex:Animal'', RDFS_subClassOf, Ref ''ex:Color''),
      (''ex:Thing'', SPDXS_referenceable, Literal ''yes'' None),
      (''ex:Animal'', SH_property, Ref ''_:s1''),
      (''_:s1'', SH_path, Ref ''ex:Animal/name''),
      (''_:s1'', SH_datatype, Ref ''xsd:string''),
      (''_:s1'', SH_pattern, Literal ''^a'' None),
      (''ex:Animal/name'', RDFS_range, Ref ''ex:Thing''),
      (''ex:Animal'', SH_property, Ref ''_:s2''),
      (''_:s2'', SH_path, Ref ''ex:colour''),
      (''_:s2'', SH_class, Ref ''ex:Color''),
      (''_:s2'', SH_datatype, Ref ''xsd:string''),
      (''_:s2'', SH_maxCount, Literal ''1'' (Some XSD_integer)),
      (''ex:Animal'', SH_property, Ref ''_:s3''),
      (''_:s3'', SH_path, Ref ''ex:owner''),
      (''ex:owner'', RDFS_range, Ref ''ex:Thing'')]"

definition self_parent_graph :: graph where
  "self_parent_graph =
     [(''ex:A'', RDF_type, Ref OWL_Class),
      (''ex:A'', RDFS_subClassOf, Ref ''ex:A'')]"

definition identity_context :: "string \<Rightarrow> string" where
  "identity_context s = s"

definition sample_classes :: "Class list" where
  "sample_classes =
     [\<lparr>c_id = ''ex:Thing'', clsname = ''ex_Thing'', parent_ids = [],
        derived_ids = [''ex:Animal''], properties = [], c_comment = [],
        id_property = None, refable = ''yes''\<rparr>,
      \<lparr>c_id = ''ex:Animal'', clsname = ''ex_Animal'', parent_ids = [''ex:Thing''],
        derived_ids = [],
        properties =
          [\<lparr>path = ''ex:Animal/name'', varname = ''/name'', p_comment = [],
             max_count = None, min_count = None, enum_id = [], class_id = [],
             datatype_id = ''xsd:string'', pattern = ''^a''\<rparr>,
           \<lparr>path = ''ex:colour'', varname = ''colour'', p_comment = [],
             max_count = Some 1, min_count = None, enum_id = ''ex:Color'', class_id = [],
             datatype_id = [], pattern = []\<rparr>,
           \<lparr>path = ''ex:owner'', varname = ''owner'', p_comment = [],
             max_count = None, min_count = None, enum_id = [], class_id = ''ex:Thing'',
             datatype_id = [], pattern = []\<rparr>],
        c_comment = [], id_property = None, refable = ''optional''\<rparr>]"

definition sample_cache :: cache where
  "sample_cache =
     [(''ex:Color'', ''ex:Color''), (''ex:Thing'', ''ex:Thing''), (''ex:Animal'', ''ex:Animal''),
      (''ex:Animal/name'', ''ex:Animal/name''), (''ex:colour'', ''ex:colour''),
      (''ex:owner'', ''ex:owner'')]"

definition sample_enums :: "Enum list" where
  "sample_enums =
     [\<lparr>e_id = ''ex:Color'', e_clsname = ''ex_Color'',
        e_values = [\<lparr>ev_id = ''ex:red'', ev_varname = ''red'', ev_comment = []\<rparr>],
        e_comment = []\<rparr>]"

definition sample_model :: Model where
  "sample_model = \<lparr>compact_ids = sample_cache, enums = sample_enums, classes = sample_classes\<rparr>"

definition sample_queue :: "Class list" where
  "sample_queue = [sample_classes ! 1, sample_classes ! 0]"

definition self_parent_queue :: "Class list" where
  "self_parent_queue =
     [\<lparr>c_id = ''ex:A'', clsname = ''ex_A'', parent_ids = [''ex:A''],
        derived_ids = [''ex:A''], properties = [], c_comment = [],
        id_property = None, refable = ''optional''\<rparr>]"

definition missing_range_graph :: graph where
  "missing_range_graph =
     [(''ex:A'', RDF_type, Ref OWL_Class),
      (''ex:A'', SH_property, Ref ''_:s''),
      (''_:s'', SH_path, Ref ''ex:p'')]"

definition bad_refable_graph :: graph where
  "bad_refable_graph =
     [(''ex:A'', RDF_type, Ref OWL_Class),
      (''ex:A'', SPDXS_referenceable, Literal ''maybe'' None)]"


definition falsy_graph :: graph where
  "falsy_graph =
     [(''ex:A'', RDF_type, Ref OWL_Class),
      (''ex:A'', SH_property, Ref ''_:s''),
      (''_:s'', SH_path, Ref ''ex:p''),
      (''_:s'', SH_class, Ref ''''),
      (''_:s'', SH_datatype, Ref ''xsd:string''),
      (''ex:A'', SH_property, Ref ''_:t''),
      (''_:t'', SH_path, Ref ''ex:q''),
      (''_:t'', SH_datatype, Ref ''xsd:string''),
      (''_:t'', SH_pattern, Literal ''0'' (Some XSD_integer))]"

definition falsy_model :: Model where
  "falsy_model =
     \<lparr>compact_ids = [(''ex:A'', ''ex:A''), (''ex:p'', ''ex:p''), (''ex:q'', ''ex:q'')],
      enums = [],
      classes =
        [\<lparr>c_id = ''ex:A'', clsname = ''ex_A'', parent_ids = [], derived_ids = [],
           properties =
             [\<lparr>path = ''ex:p'', varname = ''p'', p_comment = [],
                max_count = None, min_count = None, enum_id = [], class_id = [],
                datatype_id = ''xsd:string'', pattern = []\<rparr>,
              \<lparr>path = ''ex:q'', varname = ''q'', p_comment = [],
                max_count = None, min_count = None, enum_id = [], class_id = [],
                datatype_id = ''xsd:string'', pattern = []\<rparr>],
           c_comment = [], id_property = None, refable = ''optional''\<rparr>]\<rparr>"

section \<open>Lemmas\<close>

subsection \<open>The prefix helpers\<close>

lemma common_prefix_loop_from:
  "idx \<le> length p1 \<Longrightarrow> idx \<le> length p2 \<Longrightarrow> take idx p1 = take idx p2 \<Longrightarrow>
   common_prefix_loop p1 p2 idx =
     take idx p1 @ longest_common_prefix (drop idx p1) (drop idx p2)"
proof (induction p1 p2 idx rule: common_prefix_loop.induct)
  case (1 p1 p2 idx)
  show ?case
  proof (cases "idx < length p1")
    case False
    with "1.prems" show ?thesis
      by (subst common_prefix_loop.simps) simp
  next
    case in1: True
    show ?thesis
    proof (cases "idx < length p2")
      case False
      with in1 "1.prems" show ?thesis
        by (subst common_prefix_loop.simps) simp
    next
      case in2: True
      have d1: "drop idx p1 = p1 ! idx # drop (Suc idx) p1"
        using in1 by (simp add: Cons_nth_drop_Suc)
      have d2: "drop idx p2 = p2 ! idx # drop (Suc idx) p2"
        using in2 by (simp add: Cons_nth_drop_Suc)
      show ?thesis
      proof (cases "p1 ! idx = p2 ! idx")
        case False
        with in1 in2 "1.prems" show ?thesis
          by (subst common_prefix_loop.simps) (simp add: d1 d2)
      next
        case same: True
        have t: "take (Suc idx) p1 = take (Suc idx) p2"
          using in1 in2 same "1.prems"(3) by (simp add: take_Suc_conv_app_nth)
        have "common_prefix_loop p1 p2 (Suc idx) =
                take (Suc idx) p1 @ longest_common_prefix (drop (Suc idx) p1) (drop (Suc idx) p2)"
          using "1.IH" in1 in2 same t by simp
        then show ?thesis
          using in1 in2 same
          by (subst common_prefix_loop.simps) (simp add: d1 d2 take_Suc_conv_app_nth)
      qed
    qed
  qed
qed

lemma common_prefix_loop_lcp:
  "common_prefix_loop p1 p2 0 = longest_common_prefix p1 p2"
  using common_prefix_loop_from [of 0 p1 p2] by simp

lemma longest_shared_prefix_unique:
  "longest_shared_prefix r xs \<Longrightarrow> longest_shared_prefix r' xs \<Longrightarrow> r = r'"
  unfolding longest_shared_prefix_def by (meson prefix_order.antisym)

lemma longest_shared_prefix_single: "longest_shared_prefix x [x]"
  by (simp add: longest_shared_prefix_def shared_prefix_def)

lemma longest_shared_prefix_append:
  assumes "longest_shared_prefix p1 xs" "longest_shared_prefix p2 ys"
  shows "longest_shared_prefix (longest_common_prefix p1 p2) (xs @ ys)"
proof -
  let ?r = "longest_common_prefix p1 p2"
  have r1: "prefix ?r p1" and r2: "prefix ?r p2"
    by (rule longest_common_prefix_prefix1, rule longest_common_prefix_prefix2)
  have "shared_prefix ?r (xs @ ys)"
    using assms r1 r2
    unfolding longest_shared_prefix_def shared_prefix_def list_all_iff
    by (auto intro: prefix_order.trans)
  moreover have "prefix q ?r" if "shared_prefix q (xs @ ys)" for q
  proof -
    from that have "shared_prefix q xs" "shared_prefix q ys"
      by (simp_all add: shared_prefix_def)
    with assms have "prefix q p1" "prefix q p2"
      by (simp_all add: longest_shared_prefix_def)
    then show ?thesis by (rule longest_common_prefix_max_prefix)
  qed
  ultimately show ?thesis by (simp add: longest_shared_prefix_def)
qed

lemma common_prefix_longest:
  "s \<noteq> [] \<Longrightarrow> longest_shared_prefix (common_prefix s) s"
proof (induction s rule: common_prefix.induct)
  case (1 s)
  show ?case
  proof (cases "length s = 1")
    case True
    then obtain x where "s = [x]" by (cases s) auto
    then show ?thesis
      by (subst common_prefix.simps) (simp add: longest_shared_prefix_single)
  next
    case False
    with "1.prems" have len: "2 \<le> length s" by (cases s) (auto simp: Suc_le_eq)
    let ?k = "length s div 2"
    have ne1: "take ?k s \<noteq> []" and ne2: "drop ?k s \<noteq> []"
      using len by auto
    have h1: "longest_shared_prefix (common_prefix (take ?k s)) (take ?k s)"
      using "1.IH"(1) "1.prems" False ne1 by simp
    have h2: "longest_shared_prefix (common_prefix (drop ?k s)) (drop ?k s)"
      using "1.IH"(2) "1.prems" False ne2 by simp
    have "longest_shared_prefix
            (longest_common_prefix (common_prefix (take ?k s)) (common_prefix (drop ?k s)))
            (take ?k s @ drop ?k s)"
      by (rule longest_shared_prefix_append [OF h1 h2])
    then show ?thesis
      using "1.prems" False
      by (subst common_prefix.simps) (simp add: common_prefix_loop_lcp)
  qed
qed

lemma foldl_lcp_longest:
  "longest_shared_prefix (foldl longest_common_prefix x xs) (x # xs)"
proof (induction xs arbitrary: x)
  case Nil
  show ?case by (simp add: longest_shared_prefix_single)
next
  case (Cons y ys)
  have a: "longest_shared_prefix (longest_common_prefix x y) ([x] @ [y])"
    by (rule longest_shared_prefix_append) (rule longest_shared_prefix_single)+
  have b: "longest_shared_prefix (foldl longest_common_prefix (longest_common_prefix x y) ys)
             (longest_common_prefix x y # ys)"
    by (rule Cons.IH)
  show ?case
    using a b
    unfolding longest_shared_prefix_def shared_prefix_def list_all_iff
    by (auto intro: prefix_order.trans)
qed

subsection \<open>The ordering loop: invariants\<close>

lemma parent_rel_iff:
  "(i, p) \<in> parent_rel cs \<longleftrightarrow> (\<exists>c \<in> set cs. c_id c = i \<and> p \<in> set (parent_ids c))"
  by (auto simp: parent_rel_def parent_edges_def)

lemma order_loop_invariant:
  assumes run: "order_loop tmp done_ids out = Some r"
    and init: "I tmp done_ids out"
    and requeue: "\<And>c rest d out. I (c # rest) d out \<Longrightarrow>
                    \<not> (\<forall>p \<in> set (parent_ids c). p \<in> d) \<Longrightarrow> I (rest @ [c]) d out"
    and emit: "\<And>c rest d out. I (c # rest) d out \<Longrightarrow>
                    (\<forall>p \<in> set (parent_ids c). p \<in> d) \<Longrightarrow>
                    I rest (insert (c_id c) d) (out @ [c])"
  shows "\<exists>d. I [] d r"
proof -
  have "I tmp done_ids out \<longrightarrow> (\<exists>d. I [] d r)"
  proof (rule order_loop.raw_induct
           [where P = "\<lambda>tmp done_ids out r. I tmp done_ids out \<longrightarrow> (\<exists>d. I [] d r)", OF _ run])
    fix loop tmp d out r
    assume IH: "\<And>tmp d out r. loop tmp d out = Some r \<Longrightarrow> I tmp d out \<longrightarrow> (\<exists>d. I [] d r)"
      and step: "(case tmp of
                    [] \<Rightarrow> Some out
                  | c # rest \<Rightarrow>
                      if \<not> (\<forall>p \<in> set (parent_ids c). p \<in> d)
                      then loop (rest @ [c]) d out
                      else loop rest (insert (c_id c) d) (out @ [c])) = Some r"
    show "I tmp d out \<longrightarrow> (\<exists>d. I [] d r)"
    proof
      assume inv: "I tmp d out"
      show "\<exists>d. I [] d r"
      proof (cases tmp)
        case Nil
        with step inv show ?thesis by auto
      next
        case (Cons c rest)
        show ?thesis
        proof (cases "\<forall>p \<in> set (parent_ids c). p \<in> d")
          case True
          with step Cons have "loop rest (insert (c_id c) d) (out @ [c]) = Some r"
            by simp
          moreover have "I rest (insert (c_id c) d) (out @ [c])"
            using emit inv Cons True by blast
          ultimately show ?thesis using IH by blast
        next
          case False
          with step Cons have "loop (rest @ [c]) d out = Some r"
            by simp
          moreover have "I (rest @ [c]) d out"
            using requeue inv Cons False by blast
          ultimately show ?thesis using IH by blast
        qed
      qed
    qed
  qed
  with init show ?thesis by blast
qed

lemma order_loop_mset:
  assumes "order_loop tmp done_ids out = Some r"
  shows "mset r = mset out + mset tmp"
proof -
  have "\<exists>d::string set. mset r + mset ([]::Class list) = mset out + mset tmp"
    by (rule order_loop_invariant
          [where I = "\<lambda>t d o'. mset o' + mset t = mset out + mset tmp", OF assms]) simp_all
  then show ?thesis by simp
qed

lemma topo_ordered_snoc:
  assumes "topo_ordered out" "\<forall>p \<in> set (parent_ids c). p \<in> c_id ` set out"
  shows "topo_ordered (out @ [c])"
  unfolding topo_ordered_def
proof (intro allI impI ballI)
  fix i p
  assume i: "i < length (out @ [c])" and p: "p \<in> set (parent_ids ((out @ [c]) ! i))"
  show "\<exists>j<i. c_id ((out @ [c]) ! j) = p"
  proof (cases "i < length out")
    case True
    with p have "p \<in> set (parent_ids (out ! i))" by (simp add: nth_append)
    with assms(1) True obtain j where "j < i" "c_id (out ! j) = p"
      unfolding topo_ordered_def by blast
    with True show ?thesis by (auto simp: nth_append intro!: exI [of _ j])
  next
    case False
    with i have ieq: "i = length out" by simp
    with p have "p \<in> set (parent_ids c)" by simp
    with assms(2) obtain d where "d \<in> set out" "c_id d = p" by auto
    then obtain j where "j < length out" "out ! j = d" by (auto simp: in_set_conv_nth)
    with \<open>c_id d = p\<close> ieq show ?thesis by (auto simp: nth_append intro!: exI [of _ j])
  qed
qed

lemma order_loop_topo:
  assumes "order_loop tmp {} [] = Some r"
  shows "topo_ordered r"
proof -
  have "\<exists>d. d = c_id ` set r \<and> topo_ordered r"
  proof (rule order_loop_invariant
           [where I = "\<lambda>t d o'. d = c_id ` set o' \<and> topo_ordered o'", OF assms])
    show "{} = c_id ` set [] \<and> topo_ordered []"
      by (simp add: topo_ordered_def)
  next
    fix c :: Class and rest :: "Class list" and d :: "string set" and out :: "Class list"
    assume "d = c_id ` set out \<and> topo_ordered out"
      and "\<forall>p \<in> set (parent_ids c). p \<in> d"
    then show "insert (c_id c) d = c_id ` set (out @ [c]) \<and> topo_ordered (out @ [c])"
      by (auto intro: topo_ordered_snoc)
  qed simp
  then show ?thesis by simp
qed

lemma topo_ordered_acyclic:
  assumes topo: "topo_ordered cs" and dist: "distinct (map c_id cs)"
  shows "acyclic (parent_rel cs)"
proof -
  define rank where "rank i = (LEAST k. k < length cs \<and> c_id (cs ! k) = i)" for i
  have rank_nth: "rank (c_id (cs ! k)) = k" if "k < length cs" for k
  proof -
    have "\<And>k'. k' < length cs \<and> c_id (cs ! k') = c_id (cs ! k) \<Longrightarrow> k' = k"
      using dist that by (auto simp: distinct_conv_nth)
    then show ?thesis
      unfolding rank_def using that by (intro Least_equality) auto
  qed
  have step: "rank p < rank i" if "(i, p) \<in> parent_rel cs" for i p
  proof -
    from that obtain c where c: "c \<in> set cs" "c_id c = i" "p \<in> set (parent_ids c)"
      by (auto simp: parent_rel_iff)
    then obtain k where k: "k < length cs" "cs ! k = c" by (auto simp: in_set_conv_nth)
    with topo c obtain j where j: "j < k" "c_id (cs ! j) = p"
      unfolding topo_ordered_def by blast
    have "rank p = j" using rank_nth [of j] j k by simp
    moreover have "rank i = k" using rank_nth [of k] k c by simp
    ultimately show ?thesis using j by simp
  qed
  have "parent_rel cs \<subseteq> inv_image {(a, b). b < (a::nat)} rank"
    using step by (auto simp: inv_image_def)
  moreover have "acyclic (inv_image {(a, b). b < (a::nat)} rank)"
  proof -
    have "wf ((inv_image {(a, b). b < (a::nat)} rank)\<inverse>)"
    proof -
      have "(inv_image {(a, b). b < (a::nat)} rank)\<inverse> = inv_image less_than rank"
        by (auto simp: inv_image_def)
      then show ?thesis by simp
    qed
    then have "acyclic ((inv_image {(a, b). b < (a::nat)} rank)\<inverse>)"
      by (rule wf_acyclic)
    then show ?thesis by (simp only: acyclic_converse)
  qed
  ultimately show ?thesis by (rule acyclic_subset [rotated])
qed

subsection \<open>The ordering loop: termination\<close>

lemma finite_parent_rel: "finite (parent_rel cs)"
  by (simp add: parent_rel_def)

lemma exists_ready:
  assumes ne: "tmp \<noteq> []" and acyc: "acyclic (parent_rel tmp)"
    and known: "parents_known tmp d"
  shows "\<exists>c \<in> set tmp. ready d c"
proof -
  have "wf ((parent_rel tmp)\<inverse>)"
    using finite_parent_rel acyc by (rule finite_acyclic_wf_converse)
  moreover from ne obtain c0 where "c0 \<in> set tmp" by (cases tmp) auto
  then have "c_id c0 \<in> c_id ` set tmp" by simp
  ultimately obtain z where z: "z \<in> c_id ` set tmp"
    and zmin: "\<And>y. (y, z) \<in> (parent_rel tmp)\<inverse> \<Longrightarrow> y \<notin> c_id ` set tmp"
    by (rule wfE_min) blast
  from z obtain c where c: "c \<in> set tmp" "c_id c = z" by auto
  have "p \<in> d" if "p \<in> set (parent_ids c)" for p
  proof -
    from that c have "(z, p) \<in> parent_rel tmp" by (auto simp: parent_rel_iff)
    then have "p \<notin> c_id ` set tmp" using zmin by blast
    with known c that show ?thesis unfolding parents_known_def by blast
  qed
  with c show ?thesis unfolding ready_def by blast
qed

lemma order_loop_ready:
  "ready d c \<Longrightarrow> order_loop (c # rest) d out = order_loop rest (insert (c_id c) d) (out @ [c])"
  by (subst order_loop.simps) (simp add: ready_def)

lemma order_loop_requeue:
  "\<not> ready d c \<Longrightarrow> order_loop (c # rest) d out = order_loop (rest @ [c]) d out"
  by (subst order_loop.simps) (simp add: ready_def)

lemma order_loop_Nil: "order_loop [] d out = Some out"
  by (subst order_loop.simps) simp

lemma order_loop_terminates:
  "acyclic (parent_rel tmp) \<Longrightarrow> parents_known tmp d \<Longrightarrow> \<exists>r. order_loop tmp d out = Some r"
proof (induction "length tmp" arbitrary: tmp d out)
  case 0
  then show ?case by (simp add: order_loop_Nil)
next
  case (Suc n)
  have inner: "length t = Suc n \<Longrightarrow> acyclic (parent_rel t) \<Longrightarrow> parents_known t d \<Longrightarrow>
                 length (takeWhile (\<lambda>c. \<not> ready d c) t) = k \<Longrightarrow>
                 \<exists>r. order_loop t d out = Some r" for k t
  proof (induction k arbitrary: t)
    case 0
    then obtain c rest where t: "t = c # rest" by (cases t) auto
    with "0.prems"(4) have rdy: "ready d c" by (auto split: if_splits)
    have "parent_rel rest \<subseteq> parent_rel t"
      by (auto simp: t parent_rel_iff)
    with "0.prems"(2) have "acyclic (parent_rel rest)" by (rule acyclic_subset)
    moreover have "parents_known rest (insert (c_id c) d)"
      using "0.prems"(3) unfolding parents_known_def t by auto
    moreover have "n = length rest" using "0.prems"(1) t by simp
    ultimately have "\<exists>r. order_loop rest (insert (c_id c) d) (out @ [c]) = Some r"
      by (rule Suc.hyps(1) [rotated])
    then show ?case by (simp add: t order_loop_ready [OF rdy])
  next
    case (Suc k)
    then obtain c rest where t: "t = c # rest" by (cases t) auto
    with Suc.prems(4) have nrdy: "\<not> ready d c"
      and len: "length (takeWhile (\<lambda>c. \<not> ready d c) rest) = k"
      by (auto split: if_splits)
    from exists_ready [OF _ Suc.prems(2) Suc.prems(3)] t
    obtain c' where "c' \<in> set t" "ready d c'" by auto
    with nrdy t have c': "c' \<in> set rest" "\<not> \<not> ready d c'" by auto
    have "takeWhile (\<lambda>c. \<not> ready d c) (rest @ [c]) = takeWhile (\<lambda>c. \<not> ready d c) rest"
      using c' by (rule takeWhile_append1)
    with len have "length (takeWhile (\<lambda>c. \<not> ready d c) (rest @ [c])) = k" by simp
    moreover have "parent_rel (rest @ [c]) = parent_rel t"
      by (auto simp: t parent_rel_iff)
    with Suc.prems(2) have "acyclic (parent_rel (rest @ [c]))" by simp
    moreover have "parents_known (rest @ [c]) d"
      using Suc.prems(3) unfolding parents_known_def t by auto
    moreover have "length (rest @ [c]) = Suc n" using Suc.prems(1) t by simp
    ultimately have "\<exists>r. order_loop (rest @ [c]) d out = Some r"
      using Suc.IH by blast
    then show ?case by (simp add: t order_loop_requeue [OF nrdy])
  qed
  from Suc.hyps(2) Suc.prems show ?case
    using inner [of tmp] by simp
qed

lemma parents_closed_known: "parents_closed cs \<Longrightarrow> parents_known cs {}"
  by (auto simp: parents_closed_def parents_known_def)

lemma order_loop_acyclic_iff:
  assumes "distinct (map c_id cs)" "parents_closed cs"
  shows "(\<exists>r. order_loop cs {} [] = Some r) \<longleftrightarrow> acyclic (parent_rel cs)"
proof
  assume "\<exists>r. order_loop cs {} [] = Some r"
  then obtain r where r: "order_loop cs {} [] = Some r" ..
  then have "topo_ordered r" by (rule order_loop_topo)
  moreover from order_loop_mset [OF r] have m: "mset r = mset cs" by simp
  then have "mset (map c_id r) = mset (map c_id cs)" by (metis mset_map)
  with assms(1) have "distinct (map c_id r)" by (metis mset_eq_imp_distinct_iff)
  ultimately have "acyclic (parent_rel r)" by (rule topo_ordered_acyclic)
  moreover have "parent_rel r = parent_rel cs"
    using mset_eq_setD [OF m] by (auto simp: parent_rel_iff)
  ultimately show "acyclic (parent_rel cs)" by simp
next
  assume "acyclic (parent_rel cs)"
  then show "\<exists>r. order_loop cs {} [] = Some r"
    using parents_closed_known [OF assms(2)] by (rule order_loop_terminates)
qed

subsection \<open>Classifier, property resolver and class builder\<close>

lemma set_set_add: "set (set_add xs x) = insert x (set xs)"
  by (auto simp: set_add_def)

lemma distinct_set_add: "distinct xs \<Longrightarrow> distinct (set_add xs x)"
  by (simp add: set_add_def)

lemma classify_step_cases:
  "classify_step g ctx (cids, es, en, cl) x = (cids', es', en', cl') \<Longrightarrow>
     (enum_values_of g x \<noteq> [] \<and> map e_id es' = map e_id es @ [x] \<and>
        en' = set_add en x \<and> cl' = cl) \<or>
     (enum_values_of g x = [] \<and> es' = es \<and> en' = en \<and> cl' = set_add cl x \<and> cids' = cids)"
  by (auto simp: classify_step_def Let_def split: if_splits prod.splits)

lemma classify_fold:
  "foldl (classify_step g ctx) (cids, es, en, cl) xs = (cids', es', en', cl') \<Longrightarrow>
     set cl' = set cl \<union> {x \<in> set xs. enum_values_of g x = []} \<and>
     set en' = set en \<union> {x \<in> set xs. enum_values_of g x \<noteq> []} \<and>
     set (map e_id es') = set (map e_id es) \<union> {x \<in> set xs. enum_values_of g x \<noteq> []} \<and>
     (distinct cl \<longrightarrow> distinct cl')"
proof (induction xs arbitrary: cids es en cl)
  case Nil
  then show ?case by simp
next
  case (Cons x xs)
  obtain c1 e1 en1 cl1 where st: "classify_step g ctx (cids, es, en, cl) x = (c1, e1, en1, cl1)"
    by (metis prod_cases4)
  with Cons.prems have "foldl (classify_step g ctx) (c1, e1, en1, cl1) xs = (cids', es', en', cl')"
    by simp
  note IH = Cons.IH [OF this]
  from classify_step_cases [OF st] show ?case
  proof
    assume a: "enum_values_of g x \<noteq> [] \<and> map e_id e1 = map e_id es @ [x] \<and>
                 en1 = set_add en x \<and> cl1 = cl"
    then have "set (map e_id e1) = insert x (set (map e_id es))"
      by simp
    with IH a show ?thesis by (auto simp: set_set_add)
  next
    assume a: "enum_values_of g x = [] \<and> e1 = es \<and> en1 = en \<and> cl1 = set_add cl x \<and> c1 = cids"
    with IH show ?thesis by (auto simp: set_set_add distinct_set_add)
  qed
qed

lemma classify_result:
  assumes "foldl (classify_step g ctx) ([], [], [], []) (subjects g RDF_type (Ref OWL_Class))
             = (cids, es, en, cl)"
  shows "set cl = structural_classes g" "set en = enumeration_classes g"
     "e_id ` set es = enumeration_classes g" "distinct cl"
  using classify_fold [OF assms]
  by (auto simp: structural_classes_def enumeration_classes_def)

lemma structural_not_enumeration: "structural_classes g \<inter> enumeration_classes g = {}"
  by (auto simp: structural_classes_def enumeration_classes_def)

lemma truthy_Some: "truthy py v = Some n \<Longrightarrow> node_text n \<noteq> []"
  by (auto simp: truthy_def node_bool_def split: option.splits if_splits)

lemma resolve_range_populated:
  assumes "resolve_range py g en cl obj_prop prop p = Inr p'"
    and "enum_id p = []" "class_id p = []" "datatype_id p = []" "pattern p = []"
  shows "range_populated p'"
  using assms
  by (auto simp: resolve_range_def range_populated_def
           split: option.splits if_splits dest: truthy_Some)

lemma build_property_populated:
  "build_property py g ctx en cl cls_iri cids obj_prop = Inr (p, cids') \<Longrightarrow>
     range_populated p"
  by (auto simp: build_property_def split: option.splits prod.splits sum.splits
           intro: resolve_range_populated)

lemma build_properties_populated:
  "build_properties py g ctx en cl cls_iri cids sh = Inr (ps, cids') \<Longrightarrow>
     \<forall>p \<in> set ps. range_populated p"
proof (induction sh arbitrary: cids ps)
  case Nil
  then show ?case by simp
next
  case (Cons s sh)
  then show ?case
    by (auto split: sum.splits prod.splits dest: build_property_populated)
qed

lemma resolve_range_error:
  "resolve_range py g en cl obj_prop prop p = Inl e \<Longrightarrow>
     (\<exists>r. e = UnknownClassRestriction (node_text prop) r) \<or> e = MissingRange (node_text prop)"
  by (auto simp: resolve_range_def split: option.splits if_splits)

lemma int_val_error: "int_val py v = Inl e \<Longrightarrow> e = ValueError"
  by (auto simp: int_val_def split: option.splits if_splits)

lemma build_property_error:
  "build_property py g ctx en cl cls_iri cids obj_prop = Inl e \<Longrightarrow>
     \<forall>i v. e \<noteq> UnknownReferenceable i v"
  by (auto simp: build_property_def split: option.splits prod.splits sum.splits
           dest: resolve_range_error int_val_error)

lemma build_properties_error:
  "build_properties py g ctx en cl cls_iri cids sh = Inl e \<Longrightarrow>
     \<forall>i v. e \<noteq> UnknownReferenceable i v"
proof (induction sh arbitrary: cids)
  case Nil
  then show ?case by simp
next
  case (Cons s sh)
  then show ?case
    by (auto split: sum.splits prod.splits dest: build_property_error)
qed

lemma known_text: "known n iris \<Longrightarrow> node_text n \<in> set iris"
  by (auto simp: known_def)

lemma known_Ref: "known (Ref i) iris \<longleftrightarrow> i \<in> set iris"
  by (auto simp: known_def)

lemma build_class_built:
  "build_class py g ctx en cl cids x = Inr (c, cids') \<Longrightarrow>
     c_id c = x \<and> class_built g cl c"
  by (auto simp: build_class_def class_built_def declared_refable_def Let_def
           split: prod.splits if_splits sum.splits dest: build_properties_populated)

lemma build_class_refable_error:
  "build_class py g ctx en cl cids x = Inl (UnknownReferenceable i v) \<Longrightarrow>
     i = x \<and> v = declared_refable g x \<and> v \<notin> set refable_values"
  by (auto simp: build_class_def declared_refable_def Let_def
           split: prod.splits if_splits sum.splits dest: build_properties_error)

lemma build_class_bad_refable:
  "declared_refable g x \<notin> set refable_values \<Longrightarrow>
     build_class py g ctx en cl cids x = Inl (UnknownReferenceable x (declared_refable g x))"
  by (auto simp: build_class_def declared_refable_def Let_def split: prod.splits)

lemma build_classes_built:
  "build_classes py g ctx en cl cids xs = Inr (cs, cids') \<Longrightarrow>
     map c_id cs = xs \<and> (\<forall>c \<in> set cs. class_built g cl c)"
proof (induction xs arbitrary: cids cs)
  case Nil
  then show ?case by simp
next
  case (Cons x xs)
  then show ?case
    by (auto split: sum.splits prod.splits dest: build_class_built)
qed

lemma build_classes_refable_error:
  "build_classes py g ctx en cl cids xs = Inl (UnknownReferenceable i v) \<Longrightarrow>
     i \<in> set xs \<and> v = declared_refable g i \<and> v \<notin> set refable_values"
proof (induction xs arbitrary: cids)
  case Nil
  then show ?case by simp
next
  case (Cons x xs)
  then show ?case
    by (auto split: sum.splits prod.splits dest: build_class_refable_error)
qed

lemma build_classes_bad_refable:
  "x \<in> set xs \<Longrightarrow> declared_refable g x \<notin> set refable_values \<Longrightarrow>
     \<exists>e. build_classes py g ctx en cl cids xs = Inl e"
proof (induction xs arbitrary: cids)
  case Nil
  then show ?case by simp
next
  case (Cons y xs)
  show ?case
  proof (cases "build_class py g ctx en cl cids y")
    case (Inl e)
    then show ?thesis by simp
  next
    case (Inr r)
    obtain c cids1 where r: "r = (c, cids1)" by (cases r)
    from Inr r Cons.prems have "y \<noteq> x"
      using build_class_bad_refable [of g x py ctx en cl cids] by auto
    with Cons.prems have "x \<in> set xs" by simp
    from Cons.IH [OF this Cons.prems(2), of cids1] Inr r show ?thesis
      by (auto split: sum.splits)
  qed
qed

subsection \<open>Backlinks and the classes that enter the ordering loop\<close>

lemma map_c_id_add_derived: "map c_id (add_derived p i cs) = map c_id cs"
  by (simp add: add_derived_def comp_def)

lemma link_derived_loop_closed:
  "\<forall>e \<in> set edges. snd e \<in> set (map c_id cs) \<Longrightarrow>
     link_derived_loop edges cs =
       Inr (map (\<lambda>d. d\<lparr>derived_ids := derived_ids d @ map fst (filter (\<lambda>e. snd e = c_id d) edges)\<rparr>) cs)"
proof (induction edges arbitrary: cs)
  case Nil
  then show ?case by (simp add: map_idI)
next
  case (Cons e edges)
  obtain i p where e: "e = (i, p)" by (cases e)
  from Cons.prems e have p: "p \<in> set (map c_id cs)" by simp
  from Cons.prems have "\<forall>e \<in> set edges. snd e \<in> set (map c_id (add_derived p i cs))"
    by (simp add: map_c_id_add_derived)
  from Cons.IH [OF this] p e show ?case
    by (simp add: add_derived_def comp_def)
qed

lemma parent_edges_closed:
  "parents_closed cs \<Longrightarrow> \<forall>e \<in> set (parent_edges cs). snd e \<in> set (map c_id cs)"
  by (auto simp: parents_closed_def parent_edges_def)

lemma link_derived_sorted:
  assumes "parents_closed cs"
  shows "\<exists>cs1. link_derived cs = Inr cs1 \<and> map sort_derived cs1 = map (linked cs) cs"
  using link_derived_loop_closed [OF parent_edges_closed [OF assms]]
  by (simp add: link_derived_def sort_derived_def linked_def comp_def)

lemma linked_fields [simp]:
  "c_id (linked cs d) = c_id d" "parent_ids (linked cs d) = parent_ids d"
  "refable (linked cs d) = refable d" "properties (linked cs d) = properties d"
  by (simp_all add: linked_def)

lemma linked_derived_iff:
  "derived_ids d = [] \<Longrightarrow>
     i \<in> set (derived_ids (linked cs d)) \<longleftrightarrow>
       (\<exists>c \<in> set cs. c_id c = i \<and> c_id d \<in> set (parent_ids c))"
proof -
  assume d: "derived_ids d = []"
  have "i \<in> set (derived_ids (linked cs d)) \<longleftrightarrow> (i, c_id d) \<in> set (parent_edges cs)"
    using d by (force simp: linked_def)
  also have "\<dots> \<longleftrightarrow> (\<exists>c \<in> set cs. c_id c = i \<and> c_id d \<in> set (parent_ids c))"
    using parent_rel_iff [of i "c_id d" cs] by (simp add: parent_rel_def)
  finally show ?thesis .
qed

lemma linked_derived_sorted: "sorted (derived_ids (linked cs d))"
  by (simp add: linked_def)

lemma built_parents_closed:
  assumes "map c_id cs = cl" "\<forall>c \<in> set cs. class_built g cl c"
  shows "parents_closed cs"
  using assms unfolding parents_closed_def class_built_def by (auto dest: known_text)

lemma Model_prepare_cases:
  assumes "Model_prepare py g ctx = Inr (cids, es, tmp)"
  obtains cs where
    "distinct (map c_id cs)" "set (map c_id cs) = structural_classes g"
    "\<forall>c \<in> set cs. class_built g (map c_id cs) c"
    "tmp = sort_key c_id (map (linked cs) cs)"
    "e_id ` set es = enumeration_classes g"
proof -
  obtain cids0 enums0 en cl where
    fold: "foldl (classify_step g ctx) ([], [], [], []) (subjects g RDF_type (Ref OWL_Class))
             = (cids0, enums0, en, cl)"
    by (metis prod_cases4)
  note cr = classify_result [OF fold]
  from assms fold obtain cs cids1 where
    bc: "build_classes py g ctx en cl cids0 cl = Inr (cs, cids1)"
    by (auto simp: Model_prepare_def split: sum.splits)
  note bb = build_classes_built [OF bc]
  then have ids: "map c_id cs = cl" and built: "\<forall>c \<in> set cs. class_built g cl c"
    by simp_all
  have closed: "parents_closed cs" using ids built by (rule built_parents_closed)
  from link_derived_sorted [OF closed] obtain cs1 where
    l: "link_derived cs = Inr cs1" "map sort_derived cs1 = map (linked cs) cs" by blast
  from assms fold bc l have tmp: "tmp = sort_key c_id (map (linked cs) cs)"
      and es: "es = sort_key e_id enums0"
    by (simp_all add: Model_prepare_def)
  show thesis
  proof (rule that [of cs])
    show "distinct (map c_id cs)" using ids cr(4) by simp
    show "set (map c_id cs) = structural_classes g" using ids cr(1) by simp
    show "\<forall>c \<in> set cs. class_built g (map c_id cs) c" using ids built by simp
    show "tmp = sort_key c_id (map (linked cs) cs)" by (rule tmp)
    show "e_id ` set es = enumeration_classes g" using es cr(3) by simp
  qed
qed

lemma Model_prepare_result:
  assumes "Model_prepare py g ctx = Inr (cids, es, tmp)"
  shows "distinct (map c_id tmp)"
    and "c_id ` set tmp = structural_classes g"
    and "e_id ` set es = enumeration_classes g"
    and "parents_closed tmp"
    and "\<forall>c \<in> set tmp. class_ok g c"
    and "backlinked tmp"
proof -
  from assms obtain cs where
    dist: "distinct (map c_id cs)" and ids: "set (map c_id cs) = structural_classes g"
    and built: "\<forall>c \<in> set cs. class_built g (map c_id cs) c"
    and tmp: "tmp = sort_key c_id (map (linked cs) cs)"
    and es: "e_id ` set es = enumeration_classes g"
    by (rule Model_prepare_cases)
  have set_tmp: "set tmp = linked cs ` set cs" by (simp add: tmp)
  have idmap: "map c_id (map (linked cs) cs) = map c_id cs" by (simp add: comp_def)
  have "mset (map c_id tmp) = mset (map c_id cs)"
    unfolding tmp using idmap by (metis mset_map mset_sort)
  with dist show "distinct (map c_id tmp)" by (metis mset_eq_imp_distinct_iff)
  show "c_id ` set tmp = structural_classes g"
    using ids by (simp add: set_tmp image_image)
  show "e_id ` set es = enumeration_classes g" by (rule es)
  have closed: "parents_closed cs"
    using built by (intro built_parents_closed [of cs "map c_id cs" g]) simp_all
  show "parents_closed tmp"
    using closed unfolding parents_closed_def by (auto simp: set_tmp image_image)
  show "\<forall>c \<in> set tmp. class_ok g c"
    using built ids unfolding class_ok_def class_built_def
    by (auto simp: set_tmp linked_derived_sorted dest: known_text)
  show "backlinked tmp"
    unfolding backlinked_def
  proof (intro ballI)
    fix C D assume "C \<in> set tmp" "D \<in> set tmp"
    then obtain C0 D0 where C0: "C0 \<in> set cs" "C = linked cs C0"
      and D0: "D0 \<in> set cs" "D = linked cs D0"
      by (auto simp: set_tmp)
    have d0: "derived_ids D0 = []" using built D0 by (simp add: class_built_def)
    have inj: "inj_on c_id (set cs)" using dist by (simp add: distinct_map)
    have "(c_id C \<in> set (derived_ids D)) \<longleftrightarrow>
            (\<exists>c \<in> set cs. c_id c = c_id C0 \<and> c_id D0 \<in> set (parent_ids c))"
      using linked_derived_iff [OF d0] C0 D0 by simp
    also have "\<dots> \<longleftrightarrow> c_id D0 \<in> set (parent_ids C0)"
      using inj C0 by (auto dest: inj_onD)
    finally show "(c_id D \<in> set (parent_ids C)) = (c_id C \<in> set (derived_ids D))"
      using C0 D0 by simp
  qed
qed

subsection \<open>The constructor, the range resolution and the example graphs\<close>

lemma acyclic_single_edge: "a \<noteq> b \<Longrightarrow> acyclic {(a, b)}"
proof -
  assume "a \<noteq> b"
  moreover have "acyclic ({} :: ('a \<times> 'a) set)" by (simp add: acyclic_def)
  ultimately show ?thesis by (simp add: acyclic_insert)
qed

lemma Model_init_cases:
  assumes "Model_init py g ctx = Some (Inr m)"
  obtains cids es tmp where
    "Model_prepare py g ctx = Inr (cids, es, tmp)"
    "order_loop tmp {} [] = Some (classes m)" "enums m = es" "compact_ids m = cids"
  using assms
  by (auto simp: Model_init_def split: sum.splits option.splits)

lemma set_objects: "set (objects g s p) = {ob. (s, p, ob) \<in> set g}"
  by (auto simp: objects_def image_iff)

lemma Model_prepare_parent_rel:
  assumes "Model_prepare py g ctx = Inr (cids, es, tmp)"
  shows "parent_rel tmp = structural_parent_rel g"
proof -
  from assms obtain cs where
    ids: "set (map c_id cs) = structural_classes g"
    and built: "\<forall>c \<in> set cs. class_built g (map c_id cs) c"
    and tmp: "tmp = sort_key c_id (map (linked cs) cs)"
    by (rule Model_prepare_cases)
  have par: "set (parent_ids c) = {p \<in> structural_classes g. (c_id c, RDFS_subClassOf, Ref p) \<in> set g}"
    if "c \<in> set cs" for c
  proof -
    from built that ids have
      "set (parent_ids c) =
         node_text ` {n. (c_id c, RDFS_subClassOf, n) \<in> set g \<and> n \<in> Ref ` structural_classes g}"
      by (auto simp: class_built_def set_objects known_def)
    also have "\<dots> = {p \<in> structural_classes g. (c_id c, RDFS_subClassOf, Ref p) \<in> set g}"
      by force
    finally show ?thesis .
  qed
  have "(i, p) \<in> parent_rel tmp \<longleftrightarrow> (i, p) \<in> structural_parent_rel g" for i p
  proof -
    have "(i, p) \<in> parent_rel tmp \<longleftrightarrow> (\<exists>c \<in> set cs. c_id c = i \<and> p \<in> set (parent_ids c))"
      by (auto simp: parent_rel_iff tmp)
    also have "\<dots> \<longleftrightarrow> (i, p) \<in> structural_parent_rel g"
      proof
      assume "\<exists>c \<in> set cs. c_id c = i \<and> p \<in> set (parent_ids c)"
      then obtain c where c: "c \<in> set cs" "c_id c = i" "p \<in> set (parent_ids c)" by blast
      with par [OF c(1)] ids show "(i, p) \<in> structural_parent_rel g"
        by (auto simp: structural_parent_rel_def)
    next
      assume "(i, p) \<in> structural_parent_rel g"
      then have i: "i \<in> structural_classes g" "p \<in> structural_classes g"
        "(i, RDFS_subClassOf, Ref p) \<in> set g"
        by (auto simp: structural_parent_rel_def)
      from i(1) ids have "i \<in> c_id ` set cs" by simp
      then obtain c where c: "c \<in> set cs" "c_id c = i" by auto
      with par [OF c(1)] i show "\<exists>c \<in> set cs. c_id c = i \<and> p \<in> set (parent_ids c)"
        by auto
    qed
    finally show ?thesis .
  qed
  then show ?thesis by auto
qed





























lemma structural_classes_code [code]:
  "structural_classes g =
     set (filter (\<lambda>c. enum_values_of g c = []) (subjects g RDF_type (Ref OWL_Class)))"
  by (auto simp: structural_classes_def)

lemma enumeration_classes_code [code]:
  "enumeration_classes g =
     set (filter (\<lambda>c. enum_values_of g c \<noteq> []) (subjects g RDF_type (Ref OWL_Class)))"
  by (auto simp: enumeration_classes_def)

lemma sample_graph_prepare:
  "Model_prepare py0 sample_graph identity_context =
     Inr (sample_cache, sample_enums, sample_queue)"
  by code_simp

lemma sample_queue_order: "order_loop sample_queue {} [] = Some sample_classes"
  by code_simp

lemma sample_graph_model:
  "Model_init py0 sample_graph identity_context = Some (Inr sample_model)"
  by (simp add: Model_init_def sample_graph_prepare sample_queue_order sample_model_def)

lemma self_parent_graph_prepare:
  "Model_prepare py0 self_parent_graph identity_context =
     Inr ([(''ex:A'', ''ex:A'')], [], self_parent_queue)"
  by code_simp


lemma bad_refable_graph_model:
  "Model_init py0 bad_refable_graph identity_context =
     Some (Inl (UnknownReferenceable ''ex:A'' ''maybe''))"
  by code_simp


lemma falsy_graph_model:
  "Model_init py0 falsy_graph identity_context = Some (Inr falsy_model)"
  by code_simp



lemma sample_classes_nth:
  "classes sample_model ! 0 =
     \<lparr>c_id = ''ex:Thing'', clsname = ''ex_Thing'', parent_ids = [],
      derived_ids = [''ex:Animal''], properties = [], c_comment = [],
      id_property = None, refable = ''yes''\<rparr>"
  "c_id (classes sample_model ! Suc 0) = ''ex:Animal''"
  "parent_ids (classes sample_model ! Suc 0) = [''ex:Thing'']"
  "length (classes sample_model) = 2"
  "enums sample_model = sample_enums"
  by (simp_all add: sample_model_def sample_classes_def)

section \<open>Properties of the model construction\<close>

subsection \<open>C1: the class list is in topological order\<close>

text \<open>
  C1. Whenever construction returns a model, the final class list is a topological
  order: for every class at position \<open>i\<close> and every parent id \<open>p\<close> of it, the class
  with id \<open>p\<close> is at an earlier position \<open>j < i\<close>.
\<close>

theorem Model_init_topological:
  assumes "Model_init py g ctx = Some (Inr m)"
  shows "\<forall>i < length (classes m). \<forall>p \<in> set (parent_ids (classes m ! i)).
           \<exists>j < i. c_id (classes m ! j) = p"
proof -
  from assms obtain tmp where "order_loop tmp {} [] = Some (classes m)"
    by (rule Model_init_cases)
  then have "topo_ordered (classes m)" by (rule order_loop_topo)
  then show ?thesis by (simp add: topo_ordered_def)
qed

text \<open>
  On the example graph the model is built, \<^verbatim>\<open>ex:Animal\<close> at position 1 has the parent
  \<^verbatim>\<open>ex:Thing\<close>, and \<^verbatim>\<open>ex:Thing\<close> is at position 0.
\<close>

theorem Model_init_topological_witness:
  "Model_init py0 sample_graph identity_context = Some (Inr sample_model) \<and>
   ''ex:Thing'' \<in> set (parent_ids (classes sample_model ! 1)) \<and>
   c_id (classes sample_model ! 0) = ''ex:Thing''"
proof -
  have len: "1 < length (classes sample_model)" by (simp add: sample_classes_nth)
  have par: "''ex:Thing'' \<in> set (parent_ids (classes sample_model ! 1))"
    by (simp add: sample_classes_nth)
  from Model_init_topological [OF sample_graph_model] len par
  obtain j where "j < 1" "c_id (classes sample_model ! j) = ''ex:Thing''" by blast
  then have "c_id (classes sample_model ! 0) = ''ex:Thing''" by simp
  with sample_graph_model par show ?thesis by simp
qed

subsection \<open>C2: the ordering loop ends exactly on acyclic parent relations\<close>

text \<open>
  C2. For the class list that enters the ordering loop, the parent relation is the
  superclass relation of the graph between structural classes; the loop returns when that
  relation is acyclic and never returns when it has a cycle, in particular when a class
  lists itself as a parent.
\<close>

theorem order_loop_halts_iff_acyclic:
  assumes "Model_prepare py g ctx = Inr (cids, es, tmp)"
  shows "parent_rel tmp = structural_parent_rel g \<and>
         (acyclic (structural_parent_rel g) \<longrightarrow> (\<exists>out. order_loop tmp {} [] = Some out)) \<and>
         (\<not> acyclic (structural_parent_rel g) \<longrightarrow> order_loop tmp {} [] = None) \<and>
         ((\<exists>c \<in> set tmp. c_id c \<in> set (parent_ids c)) \<longrightarrow> order_loop tmp {} [] = None)"
proof -
  note pr = Model_prepare_parent_rel [OF assms]
  note res = Model_prepare_result [OF assms]
  have iff: "(\<exists>r. order_loop tmp {} [] = Some r) \<longleftrightarrow> acyclic (parent_rel tmp)"
    using res(1) res(4) by (rule order_loop_acyclic_iff)
  have self: "\<not> acyclic (parent_rel tmp)" if "\<exists>c \<in> set tmp. c_id c \<in> set (parent_ids c)"
  proof -
    from that obtain c where "c \<in> set tmp" "c_id c \<in> set (parent_ids c)" by blast
    then have "(c_id c, c_id c) \<in> parent_rel tmp" by (auto simp: parent_rel_iff)
    then have "(c_id c, c_id c) \<in> (parent_rel tmp)\<^sup>+" by (rule r_into_trancl)
    then show ?thesis by (auto simp: acyclic_def)
  qed
  from iff self pr show ?thesis by auto
qed

text \<open>
  The example graph is acyclic and its loop returns; the loop of the class that is its own
  superclass never returns.
\<close>

theorem order_loop_halts_iff_acyclic_witness:
  "Model_prepare py0 sample_graph identity_context =
     Inr (sample_cache, sample_enums, sample_queue) \<and>
   acyclic (structural_parent_rel sample_graph) \<and>
   order_loop sample_queue {} [] \<noteq> None \<and>
   Model_prepare py0 self_parent_graph identity_context =
     Inr ([(''ex:A'', ''ex:A'')], [], self_parent_queue) \<and>
   order_loop self_parent_queue {} [] = None"
proof -
  note a = order_loop_halts_iff_acyclic [OF sample_graph_prepare]
  note b = order_loop_halts_iff_acyclic [OF self_parent_graph_prepare]
  have "parent_rel sample_queue = {(''ex:Animal'', ''ex:Thing'')}"
    by (simp add: parent_rel_def parent_edges_def sample_queue_def sample_classes_def)
  moreover have "acyclic {(''ex:Animal'', ''ex:Thing'')}"
    by (rule acyclic_single_edge) simp
  ultimately have "acyclic (parent_rel sample_queue)" by (simp only:)
  with a have acyc: "acyclic (structural_parent_rel sample_graph)" by simp
  with a have "\<exists>out. order_loop sample_queue {} [] = Some out" by blast
  then have halts: "order_loop sample_queue {} [] \<noteq> None" by auto
  have "\<exists>c \<in> set self_parent_queue. c_id c \<in> set (parent_ids c)"
    by (simp add: self_parent_queue_def)
  with b have "order_loop self_parent_queue {} [] = None" by blast
  with acyc halts sample_graph_prepare self_parent_graph_prepare show ?thesis by simp
qed

subsection \<open>C3: precedence of the range sources\<close>




subsection \<open>C4: the referenceable value of a class\<close>

text \<open>
  C4, as amended. In every constructed model the \<open>refable\<close> field of each class is the
  value of the class-level referenceable predicate, \<^verbatim>\<open>optional\<close> when the predicate is
  absent, and it is one of the five values. If some structural class carries a value
  outside the five, construction fails with an error and returns no model. And the
  unknown-referenceable error is only ever raised for a structural class that carries a
  value outside the five.
\<close>

theorem Model_init_refable:
  "(\<forall>m. Model_init py g ctx = Some (Inr m) \<longrightarrow>
      (\<forall>c \<in> set (classes m).
         refable c = graph_value_default g (c_id c) SPDXS_referenceable ''optional'' \<and>
         refable c \<in> set [''no'', ''local'', ''optional'', ''yes'', ''always''])) \<and>
   ((\<exists>x \<in> structural_classes g.
        graph_value_default g x SPDXS_referenceable ''optional''
          \<notin> set [''no'', ''local'', ''optional'', ''yes'', ''always'']) \<longrightarrow>
      (\<exists>e. Model_init py g ctx = Some (Inl e))) \<and>
   (\<forall>i v. Model_init py g ctx = Some (Inl (UnknownReferenceable i v)) \<longrightarrow>
      i \<in> structural_classes g \<and>
      v = graph_value_default g i SPDXS_referenceable ''optional'' \<and>
      v \<notin> set [''no'', ''local'', ''optional'', ''yes'', ''always''])"
proof (intro conjI allI impI)
  fix m assume ok: "Model_init py g ctx = Some (Inr m)"
  then obtain cids es tmp where
    prep: "Model_prepare py g ctx = Inr (cids, es, tmp)"
    and run: "order_loop tmp {} [] = Some (classes m)"
    by (rule Model_init_cases)
  from order_loop_mset [OF run] have "set (classes m) = set tmp"
    by (metis add.left_neutral mset.simps(1) mset_eq_setD)
  with Model_prepare_result(5) [OF prep]
  show "\<forall>c \<in> set (classes m).
         refable c = graph_value_default g (c_id c) SPDXS_referenceable ''optional'' \<and>
         refable c \<in> set [''no'', ''local'', ''optional'', ''yes'', ''always'']"
    by (auto simp: class_ok_def declared_refable_def refable_values_def)
next
  assume "\<exists>x \<in> structural_classes g.
        graph_value_default g x SPDXS_referenceable ''optional''
          \<notin> set [''no'', ''local'', ''optional'', ''yes'', ''always'']"
  then obtain x where x: "x \<in> structural_classes g"
    "declared_refable g x \<notin> set refable_values"
    by (auto simp: declared_refable_def refable_values_def)
  obtain cids0 enums0 en cl where
    fold: "foldl (classify_step g ctx) ([], [], [], []) (subjects g RDF_type (Ref OWL_Class))
             = (cids0, enums0, en, cl)"
    by (metis prod_cases4)
  from classify_result(1) [OF fold] x have "x \<in> set cl" by simp
  from build_classes_bad_refable [OF this x(2)] obtain e where
    "build_classes py g ctx en cl cids0 cl = Inl e" by blast
  with fold have "Model_prepare py g ctx = Inl e"
    by (simp add: Model_prepare_def)
  then show "\<exists>e. Model_init py g ctx = Some (Inl e)"
    by (simp add: Model_init_def)
next
  fix i v assume err: "Model_init py g ctx = Some (Inl (UnknownReferenceable i v))"
  then have prep: "Model_prepare py g ctx = Inl (UnknownReferenceable i v)"
    by (auto simp: Model_init_def split: sum.splits option.splits)
  obtain cids0 enums0 en cl where
    fold: "foldl (classify_step g ctx) ([], [], [], []) (subjects g RDF_type (Ref OWL_Class))
             = (cids0, enums0, en, cl)"
    by (metis prod_cases4)
  have "build_classes py g ctx en cl cids0 cl = Inl (UnknownReferenceable i v)"
  proof (cases "build_classes py g ctx en cl cids0 cl")
    case (Inl e)
    with prep fold show ?thesis by (simp add: Model_prepare_def)
  next
    case (Inr r)
    obtain cs cids1 where r: "r = (cs, cids1)" by (cases r)
    from build_classes_built [OF Inr [unfolded r]]
    have "parents_closed cs" by (intro built_parents_closed [of cs cl g]) simp_all
    from link_derived_sorted [OF this] obtain cs1 where "link_derived cs = Inr cs1" by blast
    with prep fold Inr r show ?thesis by (simp add: Model_prepare_def)
  qed
  from build_classes_refable_error [OF this] classify_result(1) [OF fold]
  have "i \<in> structural_classes g \<and> v = declared_refable g i \<and> v \<notin> set refable_values"
    by blast
  then show "i \<in> structural_classes g"
    and "v = graph_value_default g i SPDXS_referenceable ''optional''"
    and "v \<notin> set [''no'', ''local'', ''optional'', ''yes'', ''always'']"
    by (auto simp: declared_refable_def refable_values_def)
qed

text \<open>
  In the example model \<^verbatim>\<open>ex:Thing\<close> has the declared value \<^verbatim>\<open>yes\<close>; the graph
  whose class declares \<^verbatim>\<open>maybe\<close> fails with the unknown-referenceable error.
\<close>

theorem Model_init_refable_witness:
  "Model_init py0 sample_graph identity_context = Some (Inr sample_model) \<and>
   refable (classes sample_model ! 0) = ''yes'' \<and>
   graph_value_default sample_graph ''ex:Thing'' SPDXS_referenceable ''optional'' = ''yes'' \<and>
   Model_init py0 bad_refable_graph identity_context =
     Some (Inl (UnknownReferenceable ''ex:A'' ''maybe'')) \<and>
   ''ex:A'' \<in> structural_classes bad_refable_graph \<and>
   graph_value_default bad_refable_graph ''ex:A'' SPDXS_referenceable ''optional'' = ''maybe''"
proof -
  note a = Model_init_refable [of py0 sample_graph identity_context]
  note b = Model_init_refable [of py0 bad_refable_graph identity_context]
  have mem: "classes sample_model ! 0 \<in> set (classes sample_model)"
    by (simp add: sample_model_def sample_classes_def)
  from a sample_graph_model mem
  have "refable (classes sample_model ! 0) =
          graph_value_default sample_graph (c_id (classes sample_model ! 0))
            SPDXS_referenceable ''optional''"
    by blast
  then have s: "graph_value_default sample_graph ''ex:Thing'' SPDXS_referenceable ''optional'' = ''yes''"
    by (simp add: sample_classes_nth)
  from b bad_refable_graph_model
  have "''ex:A'' \<in> structural_classes bad_refable_graph \<and>
        ''maybe'' = graph_value_default bad_refable_graph ''ex:A'' SPDXS_referenceable ''optional''"
    by blast
  with s sample_graph_model bad_refable_graph_model show ?thesis
    by (simp add: sample_classes_nth)
qed

text \<open>
  The equivalence of the claim as it is stated fails: construction also fails for other
  reasons. Here the only class has no referenceable predicate, so its value is the default
  \<^verbatim>\<open>optional\<close>, and construction fails with the missing-range error.
\<close>

theorem refable_error_iff_counterexample:
  "Model_init py0 missing_range_graph identity_context = Some (Inl (MissingRange ''ex:p'')) \<and>
   subjects missing_range_graph RDF_type (Ref OWL_Class) = [''ex:A''] \<and>
   graph_value_default missing_range_graph ''ex:A'' SPDXS_referenceable ''optional'' = ''optional'' \<and>
   ''optional'' \<in> set [''no'', ''local'', ''optional'', ''yes'', ''always'']"
  by code_simp

subsection \<open>C5: derived ids are the inverse of parent ids\<close>

text \<open>
  C5. In every constructed model, for all classes \<open>C\<close> and \<open>D\<close>, the id of \<open>D\<close> is among
  the parent ids of \<open>C\<close> exactly when the id of \<open>C\<close> is among the derived ids of
  \<open>D\<close>, and the derived ids of every class are sorted ascending.
\<close>

theorem Model_init_backlinks:
  assumes "Model_init py g ctx = Some (Inr m)"
  shows "\<forall>C \<in> set (classes m). \<forall>D \<in> set (classes m).
           ((c_id D \<in> set (parent_ids C)) = (c_id C \<in> set (derived_ids D))) \<and>
           sorted (derived_ids D)"
proof -
  from assms obtain cids es tmp where
    prep: "Model_prepare py g ctx = Inr (cids, es, tmp)"
    and run: "order_loop tmp {} [] = Some (classes m)"
    by (rule Model_init_cases)
  from order_loop_mset [OF run] have s: "set (classes m) = set tmp"
    by (metis add.left_neutral mset.simps(1) mset_eq_setD)
  from Model_prepare_result(5,6) [OF prep] show ?thesis
    unfolding s backlinked_def class_ok_def by blast
qed

text \<open>
  In the example model \<^verbatim>\<open>ex:Thing\<close> is a parent of \<^verbatim>\<open>ex:Animal\<close> and
  \<^verbatim>\<open>ex:Animal\<close> is derived from \<^verbatim>\<open>ex:Thing\<close>.
\<close>

theorem Model_init_backlinks_witness:
  "Model_init py0 sample_graph identity_context = Some (Inr sample_model) \<and>
   c_id (classes sample_model ! 0) \<in> set (parent_ids (classes sample_model ! 1)) \<and>
   c_id (classes sample_model ! 1) \<in> set (derived_ids (classes sample_model ! 0)) \<and>
   sorted (derived_ids (classes sample_model ! 0))"
proof -
  have mem: "classes sample_model ! 0 \<in> set (classes sample_model)"
    "classes sample_model ! 1 \<in> set (classes sample_model)"
    by (simp_all add: sample_model_def sample_classes_def)
  have par: "c_id (classes sample_model ! 0) \<in> set (parent_ids (classes sample_model ! 1))"
    by (simp add: sample_classes_nth)
  from Model_init_backlinks [OF sample_graph_model] mem
  have "((c_id (classes sample_model ! 0) \<in> set (parent_ids (classes sample_model ! 1))) =
         (c_id (classes sample_model ! 1) \<in> set (derived_ids (classes sample_model ! 0)))) \<and>
        sorted (derived_ids (classes sample_model ! 0))"
    by blast
  with par sample_graph_model show ?thesis by simp
qed

subsection \<open>C6: parent ids name neither an enumeration nor the class itself\<close>

text \<open>
  C6. In every constructed model the parent ids of a class contain no id of an
  enumeration of the model and not the id of the class itself. (A class that is its own
  superclass keeps itself as a parent, and then the ordering loop never ends: no model is
  constructed.)
\<close>

theorem Model_init_parent_ids:
  assumes "Model_init py g ctx = Some (Inr m)"
  shows "\<forall>c \<in> set (classes m).
           (\<forall>p \<in> set (parent_ids c). p \<notin> e_id ` set (enums m)) \<and>
           c_id c \<notin> set (parent_ids c)"
proof -
  from assms obtain cids es tmp where
    prep: "Model_prepare py g ctx = Inr (cids, es, tmp)"
    and run: "order_loop tmp {} [] = Some (classes m)"
    and es: "enums m = es"
    by (rule Model_init_cases)
  note res = Model_prepare_result [OF prep]
  from order_loop_mset [OF run] have s: "set (classes m) = set tmp"
    by (metis add.left_neutral mset.simps(1) mset_eq_setD)
  have "\<exists>r. order_loop tmp {} [] = Some r" using run by blast
  then have acyc: "acyclic (parent_rel tmp)"
    using order_loop_acyclic_iff [OF res(1) res(4)] by simp
  show ?thesis
  proof (intro ballI conjI)
    fix c p assume "c \<in> set (classes m)" "p \<in> set (parent_ids c)"
    with res(5) s have "p \<in> structural_classes g" by (auto simp: class_ok_def)
    with structural_not_enumeration [of g] res(3) es
    show "p \<notin> e_id ` set (enums m)" by auto
  next
    fix c assume c: "c \<in> set (classes m)"
    show "c_id c \<notin> set (parent_ids c)"
    proof
      assume "c_id c \<in> set (parent_ids c)"
      with c s have "(c_id c, c_id c) \<in> parent_rel tmp" by (auto simp: parent_rel_iff)
      then have "(c_id c, c_id c) \<in> (parent_rel tmp)\<^sup>+" by (rule r_into_trancl)
      with acyc show False by (auto simp: acyclic_def)
    qed
  qed
qed

text \<open>
  In the example model the parent \<^verbatim>\<open>ex:Thing\<close> of \<^verbatim>\<open>ex:Animal\<close> is no
  enumeration, and \<^verbatim>\<open>ex:Animal\<close> is not its own parent; its enumeration superclass
  \<^verbatim>\<open>ex:Color\<close> was dropped.
\<close>

theorem Model_init_parent_ids_witness:
  "Model_init py0 sample_graph identity_context = Some (Inr sample_model) \<and>
   ''ex:Thing'' \<in> set (parent_ids (classes sample_model ! 1)) \<and>
   ''ex:Thing'' \<notin> e_id ` set (enums sample_model) \<and>
   c_id (classes sample_model ! 1) \<notin> set (parent_ids (classes sample_model ! 1))"
proof -
  have mem: "classes sample_model ! 1 \<in> set (classes sample_model)"
    by (simp add: sample_model_def sample_classes_def)
  have par: "''ex:Thing'' \<in> set (parent_ids (classes sample_model ! 1))"
    by (simp add: sample_classes_nth)
  from Model_init_parent_ids [OF sample_graph_model] mem par
  have "''ex:Thing'' \<notin> e_id ` set (enums sample_model) \<and>
        c_id (classes sample_model ! 1) \<notin> set (parent_ids (classes sample_model ! 1))"
    by blast
  with par sample_graph_model show ?thesis by simp
qed

subsection \<open>C7: the compaction cache\<close>

text \<open>
  C7, as amended. A lookup leaves in the cache, for its identifier, the entry that was
  already there or else the context's compaction, and changes no other entry. It returns
  that cached compaction, except that it returns the fallback when the cached compaction
  equals the identifier and a fallback is supplied. A second lookup with the same
  identifier and the same fallback returns the same result and leaves the cache as it is.
  The fallback itself is never stored.
\<close>

theorem get_compact_id_cached:
  assumes "get_compact_id ctx cids i fb = (r, cids')"
  shows "map_of cids' i = Some (cached_compaction ctx cids i) \<and>
         (\<forall>j. j \<noteq> i \<longrightarrow> map_of cids' j = map_of cids j) \<and>
         r = (case fb of
                Some f \<Rightarrow> if cached_compaction ctx cids i = i then f
                          else cached_compaction ctx cids i
              | None \<Rightarrow> cached_compaction ctx cids i) \<and>
         get_compact_id ctx cids' i fb = (r, cids')"
  using assms
  by (auto simp: get_compact_id_def cached_compaction_def Let_def map_add_def
           split: option.splits if_splits)

text \<open>
  A first lookup with a fallback on the empty cache, and the same lookup again.
\<close>

theorem get_compact_id_cached_witness:
  "get_compact_id identity_context [] ''ex:a'' (Some ''a'') = (''a'', [(''ex:a'', ''ex:a'')]) \<and>
   map_of [(''ex:a'', ''ex:a'')] ''ex:a'' = Some (cached_compaction identity_context [] ''ex:a'') \<and>
   get_compact_id identity_context [(''ex:a'', ''ex:a'')] ''ex:a'' (Some ''a'')
     = (''a'', [(''ex:a'', ''ex:a'')])"
proof -
  have first: "get_compact_id identity_context [] ''ex:a'' (Some ''a'')
                 = (''a'', [(''ex:a'', ''ex:a'')])"
    by code_simp
  from get_compact_id_cached [OF first] first show ?thesis by blast
qed

text \<open>
  The claim as it is stated fails: with a context that leaves \<^verbatim>\<open>ex:a\<close> unchanged, the
  lookup with fallback \<^verbatim>\<open>a\<close> returns \<^verbatim>\<open>a\<close>, but the cache holds the unchanged
  identifier and not the fallback, and the next lookup of the same identifier without a
  fallback returns \<^verbatim>\<open>ex:a\<close>, a different result.
\<close>

theorem get_compact_id_fallback_counterexample:
  "get_compact_id identity_context [] ''ex:a'' (Some ''a'') = (''a'', [(''ex:a'', ''ex:a'')]) \<and>
   map_of [(''ex:a'', ''ex:a'')] ''ex:a'' = Some ''ex:a'' \<and>
   ''ex:a'' \<noteq> ''a'' \<and>
   get_compact_id identity_context [(''ex:a'', ''ex:a'')] ''ex:a'' None
     = (''ex:a'', [(''ex:a'', ''ex:a'')])"
  by code_simp

subsection \<open>C8: exactly one range field of a property is set\<close>

text \<open>
  C8. In every constructed model, for every property of every class, exactly one of the
  enum reference, the class reference and the datatype is non-empty, and the pattern is
  non-empty only if the datatype is.
\<close>

theorem Model_init_property_ranges:
  assumes "Model_init py g ctx = Some (Inr m)"
  shows "\<forall>c \<in> set (classes m). \<forall>p \<in> set (properties c).
           ((enum_id p \<noteq> [] \<and> class_id p = [] \<and> datatype_id p = []) \<or>
            (enum_id p = [] \<and> class_id p \<noteq> [] \<and> datatype_id p = []) \<or>
            (enum_id p = [] \<and> class_id p = [] \<and> datatype_id p \<noteq> [])) \<and>
           (pattern p \<noteq> [] \<longrightarrow> datatype_id p \<noteq> [])"
proof -
  from assms obtain cids es tmp where
    prep: "Model_prepare py g ctx = Inr (cids, es, tmp)"
    and run: "order_loop tmp {} [] = Some (classes m)"
    by (rule Model_init_cases)
  from order_loop_mset [OF run] have s: "set (classes m) = set tmp"
    by (metis add.left_neutral mset.simps(1) mset_eq_setD)
  from Model_prepare_result(5) [OF prep] show ?thesis
    unfolding s class_ok_def range_populated_def by blast
qed

text \<open>
  The first property of \<^verbatim>\<open>ex:Animal\<close> in the example model has a datatype and a
  pattern and neither reference.
\<close>

theorem Model_init_property_ranges_witness:
  "Model_init py0 sample_graph identity_context = Some (Inr sample_model) \<and>
   enum_id (properties (classes sample_model ! 1) ! 0) = [] \<and>
   class_id (properties (classes sample_model ! 1) ! 0) = [] \<and>
   datatype_id (properties (classes sample_model ! 1) ! 0) \<noteq> [] \<and>
   pattern (properties (classes sample_model ! 1) ! 0) \<noteq> []"
proof -
  have mem: "classes sample_model ! 1 \<in> set (classes sample_model)"
    "properties (classes sample_model ! 1) ! 0 \<in> set (properties (classes sample_model ! 1))"
    by (simp_all add: sample_model_def sample_classes_def)
  have pat: "pattern (properties (classes sample_model ! 1) ! 0) \<noteq> []"
    "enum_id (properties (classes sample_model ! 1) ! 0) = []"
    by (simp_all add: sample_model_def sample_classes_def)
  from Model_init_property_ranges [OF sample_graph_model] mem
  have "((enum_id (properties (classes sample_model ! 1) ! 0) \<noteq> [] \<and>
          class_id (properties (classes sample_model ! 1) ! 0) = [] \<and>
          datatype_id (properties (classes sample_model ! 1) ! 0) = []) \<or>
         (enum_id (properties (classes sample_model ! 1) ! 0) = [] \<and>
          class_id (properties (classes sample_model ! 1) ! 0) \<noteq> [] \<and>
          datatype_id (properties (classes sample_model ! 1) ! 0) = []) \<or>
         (enum_id (properties (classes sample_model ! 1) ! 0) = [] \<and>
          class_id (properties (classes sample_model ! 1) ! 0) = [] \<and>
          datatype_id (properties (classes sample_model ! 1) ! 0) \<noteq> [])) \<and>
        (pattern (properties (classes sample_model ! 1) ! 0) \<noteq> [] \<longrightarrow>
         datatype_id (properties (classes sample_model ! 1) ! 0) \<noteq> [])"
    by blast
  with pat sample_graph_model show ?thesis by blast
qed

subsection \<open>C9: the recursive halving computes the linear reduction\<close>

text \<open>
  C9. For every non-empty list of strings, \<open>common_prefix\<close> returns what the linear
  left-to-right reduction with the longest common prefix of two strings returns, and that
  string is the longest prefix shared by all strings of the list: it is a prefix of each,
  and every prefix of each is a prefix of it.
\<close>

theorem common_prefix_refines_linear:
  "s \<noteq> [] \<Longrightarrow>
     common_prefix s = linear_common_prefix s \<and> longest_shared_prefix (common_prefix s) s"
proof -
  assume ne: "s \<noteq> []"
  then obtain x xs where s: "s = x # xs" by (cases s) auto
  have "longest_shared_prefix (linear_common_prefix s) s"
    by (simp add: s foldl_lcp_longest)
  with common_prefix_longest [OF ne] show ?thesis
    by (auto dest: longest_shared_prefix_unique)
qed

text \<open>
  Three identifiers with the longest shared prefix \<^verbatim>\<open>ex:Col\<close>.
\<close>

theorem common_prefix_refines_linear_witness:
  "[''ex:Color'', ''ex:Colour'', ''ex:Cold''] \<noteq> [] \<and>
   common_prefix [''ex:Color'', ''ex:Colour'', ''ex:Cold''] = ''ex:Col'' \<and>
   linear_common_prefix [''ex:Color'', ''ex:Colour'', ''ex:Cold''] = ''ex:Col'' \<and>
   longest_shared_prefix ''ex:Col'' [''ex:Color'', ''ex:Colour'', ''ex:Cold'']"
proof -
  have v: "linear_common_prefix [''ex:Color'', ''ex:Colour'', ''ex:Cold''] = ''ex:Col''"
    by simp
  show ?thesis
    using common_prefix_refines_linear [of "[''ex:Color'', ''ex:Colour'', ''ex:Cold'']"] v
    by auto
qed

subsection \<open>C10: the ordering loop permutes its input\<close>

text \<open>
  C10. Whenever the ordering loop returns, its output is a permutation of the class
  records that entered it: each record occurs in the output as often as in the input, so
  with distinct ids in the input every class occurs exactly once in the output.
\<close>

theorem order_loop_permutation:
  assumes "order_loop cs {} [] = Some out"
  shows "mset out = mset cs \<and> (distinct (map c_id cs) \<longrightarrow> distinct (map c_id out))"
proof -
  from order_loop_mset [OF assms] have m: "mset out = mset cs" by simp
  then have "mset (map c_id out) = mset (map c_id cs)" by (metis mset_map)
  then have "distinct (map c_id cs) \<longrightarrow> distinct (map c_id out)"
    by (metis mset_eq_imp_distinct_iff)
  with m show ?thesis by simp
qed

text \<open>
  The loop on the two classes of the example graph, which requeues \<^verbatim>\<open>ex:Animal\<close>
  once.
\<close>

theorem order_loop_permutation_witness:
  "order_loop sample_queue {} [] = Some sample_classes \<and>
   distinct (map c_id sample_queue) \<and>
   mset sample_classes = mset sample_queue \<and>
   distinct (map c_id sample_classes)"
proof -
  have d: "distinct (map c_id sample_queue)"
    by (simp add: sample_queue_def sample_classes_def)
  from order_loop_permutation [OF sample_queue_order] d sample_queue_order
  show ?thesis by blast
qed

end
